theory Spec2Isabelle
  imports Main "HOL-Library.Word" "HOL-Library.Sublist"
begin

unbundle bit_operations_syntax

section \<open>The JavaScript built-ins used by \<open>utils/traceroute.js\<close>\<close>

text \<open>
  A JavaScript string is modelled as a \<^typ>\<open>string\<close>: a list of code units below 256,
  read as Latin-1. All fields of a routing record and all arguments of the engine are
  strings: the CSV loader, the table editor and the form produce nothing else.
\<close>

subsection \<open>Strings\<close>

text \<open>\<open>s.split(c)\<close> for a separator of one character: never empty, \<open>''''.split(c) = ['''']\<close>.\<close>

fun split :: "char \<Rightarrow> string \<Rightarrow> string list" where
  "split c [] = [[]]"
| "split c (x # xs) =
     (if x = c then [] # split c xs
      else (case split c xs of [] \<Rightarrow> [[x]] | p # ps \<Rightarrow> (x # p) # ps))"

text \<open>
  \<open>s.replace(c, '''')\<close> with a string pattern replaces the first occurrence only: it is
  \<^const>\<open>remove1\<close>. \<open>s.toLowerCase()\<close> maps the upper-case letters of Latin-1
  (\<open>A\<close>-\<open>Z\<close> and 192-222 without the multiplication sign 215) to the code unit 32 above.
\<close>

definition toLowerCase :: "string \<Rightarrow> string" where
  "toLowerCase s =
     map (\<lambda>c. let n = (of_char c :: nat)
              in if (65 \<le> n \<and> n \<le> 90) \<or> (192 \<le> n \<and> n \<le> 222 \<and> n \<noteq> 215)
                 then char_of (n + 32) else c) s"

text \<open>White space and line terminators, as \<open>parseInt\<close> and \<open>Number\<close> trim them.\<close>

definition isWhiteSpace :: "char \<Rightarrow> bool" where
  "isWhiteSpace c = ((of_char c :: nat) \<in> {9, 10, 11, 12, 13, 32, 160})"

definition digitValue :: "char \<Rightarrow> nat option" where
  "digitValue c =
     (let n = (of_char c :: nat)
      in if 48 \<le> n \<and> n \<le> 57 then Some (n - 48)
         else if 97 \<le> n \<and> n \<le> 122 then Some (n - 87)
         else if 65 \<le> n \<and> n \<le> 90 then Some (n - 55)
         else None)"

definition isDigit :: "nat \<Rightarrow> char \<Rightarrow> bool" where
  "isDigit R c = (case digitValue c of None \<Rightarrow> False | Some d \<Rightarrow> d < R)"

definition digitsValue :: "nat \<Rightarrow> string \<Rightarrow> nat" where
  "digitsValue R ds =
     foldl (\<lambda>a c. a * R + (case digitValue c of None \<Rightarrow> 0 | Some d \<Rightarrow> d)) 0 ds"

definition allDigits :: "nat \<Rightarrow> string \<Rightarrow> bool" where
  "allDigits R ds = (ds \<noteq> [] \<and> list_all (isDigit R) ds)"

subsection \<open>Numbers\<close>

text \<open>
  A JavaScript number is an IEEE double. \<open>doubleIntPart n d\<close> is the integer part of the
  double nearest to the fraction \<open>n / d\<close> (\<open>d > 0\<close>), ties to even: with \<open>b\<close> the binary
  exponent of \<open>n / d\<close>, the fraction is scaled by \<open>2 ^ (52 - b)\<close> into a 53-bit
  significand, rounded, and scaled back. The exponent range of doubles is left out
  here: a subnormal has integer part 0 either way, and \<^term>\<open>2 ^ 1024 :: nat\<close> upwards
  stands for \<open>Infinity\<close>.
\<close>

fun bitLength :: "nat \<Rightarrow> nat" where
  "bitLength n = (if n = 0 then 0 else Suc (bitLength (n div 2)))"

declare bitLength.simps [simp del]

definition doubleIntPart :: "nat \<Rightarrow> nat \<Rightarrow> nat" where
  "doubleIntPart n d =
     (let L = int (bitLength n) - int (bitLength d);
          b = (if (if 0 \<le> L then d * 2 ^ nat L \<le> n else d \<le> n * 2 ^ nat (- L))
               then L else L - 1);
          s = 52 - b;
          N = (if 0 \<le> s then n * 2 ^ nat s else n);
          D = (if 0 \<le> s then d else d * 2 ^ nat (- s));
          q = N div D;
          r = N mod D;
          m = (if D < 2 * r \<or> (2 * r = D \<and> odd q) then q + 1 else q)
      in if 0 \<le> s then m div 2 ^ nat s else m * 2 ^ nat (- s))"

text \<open>
  The numbers that \<open>parseInt\<close> and \<open>32 - maskBits\<close> produce: an integer that is a
  double, an infinity, or \<open>NaN\<close> (\<open>-0\<close> is \<open>Fin 0\<close>: nothing here tells them apart).
\<close>

datatype jsnum = NaN | NegInf | Fin int | PosInf

definition roundToDouble :: "int \<Rightarrow> jsnum" where
  "roundToDouble i =
     (let m = int (doubleIntPart (nat \<bar>i\<bar>) 1)
      in if 2 ^ 1024 \<le> m then (if i < 0 then NegInf else PosInf)
         else Fin (if i < 0 then - m else m))"

text \<open>
  \<open>parseInt(string)\<close> without a radix: leading white space is dropped, then a sign, then
  a \<open>0x\<close> prefix (radix 16, else 10); the longest prefix of digits is the value, and
  with no digit the result is \<open>NaN\<close>.
\<close>

definition parseInt :: "string \<Rightarrow> jsnum" where
  "parseInt inputString =
     (let S = dropWhile isWhiteSpace inputString;
          negative = (take 1 S = ''-'');
          S1 = (if take 1 S = ''-'' \<or> take 1 S = ''+'' then drop 1 S else S);
          hex = (take 2 S1 = ''0x'' \<or> take 2 S1 = ''0X'');
          R = (if hex then 16 else 10);
          Z = takeWhile (isDigit R) (if hex then drop 2 S1 else S1)
      in if Z = [] then NaN
         else roundToDouble (if negative then - int (digitsValue R Z) else int (digitsValue R Z)))"

text \<open>\<open>a - x\<close> for an integer \<open>a\<close> that is a double, and \<open>x > y\<close>.\<close>

definition js_minus :: "int \<Rightarrow> jsnum \<Rightarrow> jsnum" where
  "js_minus a x =
     (case x of NaN \<Rightarrow> NaN | NegInf \<Rightarrow> PosInf | PosInf \<Rightarrow> NegInf
      | Fin v \<Rightarrow> roundToDouble (a - v))"

fun js_gt :: "jsnum \<Rightarrow> jsnum \<Rightarrow> bool" where
  "js_gt NaN y = False"
| "js_gt x NaN = False"
| "js_gt NegInf y = False"
| "js_gt x NegInf = True"
| "js_gt x PosInf = False"
| "js_gt PosInf y = True"
| "js_gt (Fin a) (Fin b) = (b < a)"

text \<open>
  The shift count of \<open>x << y\<close> is \<open>ToUint32(y) & 31\<close>: 0 for \<open>NaN\<close> and the infinities,
  and the integer modulo 32 otherwise.
\<close>

definition shiftCount :: "jsnum \<Rightarrow> nat" where
  "shiftCount y = (case y of Fin v \<Rightarrow> nat (v mod 32) | _ \<Rightarrow> 0)"

text \<open>
  \<open>Number(s)\<close> on a string without a dot (the pieces of \<open>ip.split('.')\<close> have none):
  white space is trimmed at both ends; the empty string is 0; \<open>0x\<close>, \<open>0o\<close> and \<open>0b\<close>
  open an unsigned integer literal in radix 16, 8 and 2; otherwise an optional sign is
  followed by \<open>Infinity\<close> or by decimal digits and an optional exponent \<open>e\<close>, sign,
  digits. Anything else is \<open>NaN\<close>. The value is the fraction \<open>Ratio n d\<close>, exact.
\<close>

datatype numval = NotANumber | Infinite | Ratio nat nat

definition nonDecimalLiteral :: "string \<Rightarrow> nat option" where
  "nonDecimalLiteral t =
     (let p = take 2 t; ds = drop 2 t
      in if (p = ''0x'' \<or> p = ''0X'') \<and> allDigits 16 ds then Some (digitsValue 16 ds)
         else if (p = ''0o'' \<or> p = ''0O'') \<and> allDigits 8 ds then Some (digitsValue 8 ds)
         else if (p = ''0b'' \<or> p = ''0B'') \<and> allDigits 2 ds then Some (digitsValue 2 ds)
         else None)"

definition unsignedDecimalLiteral :: "string \<Rightarrow> numval" where
  "unsignedDecimalLiteral u =
     (let ds = takeWhile (isDigit 10) u; ex = dropWhile (isDigit 10) u
      in if u = ''Infinity'' then Infinite
         else if ds = [] then NotANumber
         else if ex = [] then Ratio (digitsValue 10 ds) 1
         else if take 1 ex = ''e'' \<or> take 1 ex = ''E'' then
           (let es = drop 1 ex;
                ed = (if take 1 es = ''-'' \<or> take 1 es = ''+'' then drop 1 es else es)
            in if \<not> allDigits 10 ed then NotANumber
               else if take 1 es = ''-'' then Ratio (digitsValue 10 ds) (10 ^ digitsValue 10 ed)
               else Ratio (digitsValue 10 ds * 10 ^ digitsValue 10 ed) 1)
         else NotANumber)"

text \<open>
  The operands of \<open><<\<close> and \<open>|\<close> go through \<open>ToInt32\<close>: \<open>NaN\<close> and the infinities are 0, any
  other double is truncated and taken modulo \<open>2 ^ 32\<close>. \<open>NumberToInt32 s\<close> is
  \<open>ToInt32(Number(s))\<close>, which is all that \<open>ipToNumber\<close> uses of \<open>Number(s)\<close>.
\<close>

definition NumberToInt32 :: "string \<Rightarrow> 32 word" where
  "NumberToInt32 str =
     (let t = rev (dropWhile isWhiteSpace (rev (dropWhile isWhiteSpace str)))
      in if t = [] then 0
         else case nonDecimalLiteral t of
           Some n \<Rightarrow> of_nat (doubleIntPart n 1)
         | None \<Rightarrow>
             (case unsignedDecimalLiteral
                     (if take 1 t = ''-'' \<or> take 1 t = ''+'' then drop 1 t else t) of
                Ratio n d \<Rightarrow>
                  (if take 1 t = ''-'' then - of_nat (doubleIntPart n d)
                   else of_nat (doubleIntPart n d))
              | _ \<Rightarrow> 0))"

section \<open>The address matcher\<close>

text \<open>
  \<open>ipToNumber\<close>: the pieces between the dots, each through \<open>Number\<close>, shifted and or-ed
  as 32-bit integers. A piece that is missing is \<open>undefined\<close>, which \<open>ToInt32\<close> reads as 0.
\<close>

definition ipToNumber :: "string \<Rightarrow> 32 word" where
  "ipToNumber ip =
     (let parts = map NumberToInt32 (split CHR ''.'' ip);
          part = (\<lambda>i. if i < length parts then parts ! i else 0)
      in push_bit 24 (part 0) OR push_bit 16 (part 1) OR push_bit 8 (part 2) OR part 3)"

text \<open>
  \<open>isIPInNetwork\<close>: an empty argument is falsy and gives \<open>false\<close>. Nothing in the
  \<open>try\<close> block throws on strings, so the \<open>catch\<close> branch is never taken and has no
  counterpart here. \<open>>>> 0\<close> reads the mask as unsigned and \<open>&\<close> converts it back: the
  bits are those of \<open>-1 << (32 - maskBits)\<close>.
\<close>

definition isIPInNetwork :: "string \<Rightarrow> string \<Rightarrow> string \<Rightarrow> bool" where
  "isIPInNetwork ip network mask' =
     (if ip = [] \<or> network = [] \<or> mask' = [] then False
      else
        (let maskBits = parseInt (remove1 CHR ''/'' mask');
             ipNum = ipToNumber ip;
             networkNum = ipToNumber network;
             maskNum = (push_bit (shiftCount (js_minus 32 maskBits)) (- 1) :: 32 word)
         in (ipNum AND maskNum) = (networkNum AND maskNum)))"

section \<open>Routing records and route selection\<close>

text \<open>One row of the routing table, with the column names of the CSV file.\<close>

record RouteRecord =
  Equipo :: string
  IP_Destino :: string
  Mascara :: string
  Gateway :: string

text \<open>The prefix length of a record as \<open>findRouteEntry\<close> reads it.\<close>

definition maskOf :: "RouteRecord \<Rightarrow> jsnum" where
  "maskOf route = parseInt (remove1 CHR ''/'' (Mascara route))"

text \<open>
  \<open>findRouteEntry\<close>: the rows of the device, those among them that contain the
  destination, and \<open>reduce\<close> without an initial value: the first match is the first
  \<open>best\<close>, and a later one replaces it only when its mask is strictly greater.
\<close>

definition findRouteEntry :: "string \<Rightarrow> string \<Rightarrow> RouteRecord list \<Rightarrow> RouteRecord option" where
  "findRouteEntry equipmentName dstIP routingTable =
     (let equipmentRoutes = filter (\<lambda>route. Equipo route = equipmentName) routingTable;
          matches = filter (\<lambda>route. isIPInNetwork dstIP (IP_Destino route) (Mascara route))
                      equipmentRoutes
      in case matches of
           [] \<Rightarrow> None
         | first # others \<Rightarrow>
             Some (foldl (\<lambda>best current.
                            if js_gt (maskOf current) (maskOf best) then current else best)
                     first others))"

text \<open>
  \<open>findEquipmentByGateway\<close>: the owner of the first row of another device that is
  directly connected to a network holding the gateway address.
\<close>

fun findEquipmentByGateway :: "string \<Rightarrow> RouteRecord list \<Rightarrow> string \<Rightarrow> string option" where
  "findEquipmentByGateway gw [] cur = None"
| "findEquipmentByGateway gw (route # routingTable) cur =
     (if Equipo route \<noteq> cur \<and>
         toLowerCase (Gateway route) = ''directo'' \<and>
         isIPInNetwork gw (IP_Destino route) (Mascara route)
      then Some (Equipo route)
      else findEquipmentByGateway gw routingTable cur)"

section \<open>The traceroute\<close>

text \<open>
  A hop and the result object, with the property names of the source. The \<open>error\<close>
  property is a message built from a template; each template is a constructor here,
  with the values that the template inserts:
  \<^item> \<open>InvalidInput\<close>: invalid parameters or empty routing table;
  \<^item> \<open>UnknownDevice e\<close>: the device \<open>e\<close> does not exist in the routing table;
  \<^item> \<open>RoutingLoop e\<close>: infinite loop detected at the device \<open>e\<close>;
  \<^item> \<open>NoRoute ip e\<close>: no route to \<open>ip\<close> from the device \<open>e\<close>;
  \<^item> \<open>UnresolvedGateway g e\<close>: the gateway \<open>g\<close> cannot be resolved from \<open>e\<close>;
  \<^item> \<open>HopLimitExceeded n\<close>: the limit of \<open>n\<close> hops was exceeded.

  The outer \<open>catch\<close> (internal error) has no constructor: on strings nothing inside
  the \<open>try\<close> block throws.
\<close>

record Hop =
  currentEquipment :: string
  destNetwork :: string
  gateway :: string
  nextEquipment :: "string option"

datatype trace_error =
    InvalidInput
  | UnknownDevice string
  | RoutingLoop string
  | NoRoute string string
  | UnresolvedGateway string string
  | HopLimitExceeded nat

record TraceResult =
  success :: bool
  error :: "trace_error option"
  hops :: "Hop list"
  sourceEquipment :: string
  sourceIP :: string
  destIP :: string

definition MAX_HOPS :: nat where
  "MAX_HOPS = 30"

text \<open>A failure result: \<open>{ success: false, error, hops, sourceEquipment, sourceIP, destIP }\<close>.\<close>

definition failure :: "trace_error \<Rightarrow> Hop list \<Rightarrow> string \<Rightarrow> string \<Rightarrow> string \<Rightarrow> TraceResult" where
  "failure e hs srcEquipment srcIP dstIP =
     \<lparr>success = False, error = Some e, hops = hs,
      sourceEquipment = srcEquipment, sourceIP = srcIP, destIP = dstIP\<rparr>"

text \<open>
  The \<open>for\<close> loop of \<open>executeTraceroute\<close>, from the state at the head of an iteration:
  the counter \<open>hopCount\<close>, the hops pushed so far \<open>hs\<close>, the set \<open>visited\<close> of
  \<open>visitedEquipment\<close> and the device \<open>cur\<close> of \<open>currentEquipment\<close>. A next device that is
  \<open>null\<close> or the empty string is falsy: the gateway is unresolved.
\<close>

function traceLoop ::
  "string \<Rightarrow> string \<Rightarrow> string \<Rightarrow> RouteRecord list \<Rightarrow>
   nat \<Rightarrow> Hop list \<Rightarrow> string set \<Rightarrow> string \<Rightarrow> TraceResult" where
  "traceLoop srcEquipment srcIP dstIP routingTable hopCount hs visited cur =
     (if hopCount < MAX_HOPS then
        (if cur \<in> visited then failure (RoutingLoop cur) hs srcEquipment srcIP dstIP
         else
           (case findRouteEntry cur dstIP routingTable of
              None \<Rightarrow> failure (NoRoute dstIP cur) hs srcEquipment srcIP dstIP
            | Some routeEntry \<Rightarrow>
                if toLowerCase (Gateway routeEntry) = ''directo'' then
                  \<lparr>success = True, error = None,
                   hops = hs @ [\<lparr>currentEquipment = cur,
                                destNetwork = IP_Destino routeEntry @ Mascara routeEntry,
                                gateway = ''directo'',
                                nextEquipment = None\<rparr>],
                   sourceEquipment = srcEquipment, sourceIP = srcIP, destIP = dstIP\<rparr>
                else
                  (case findEquipmentByGateway (Gateway routeEntry) routingTable cur of
                     None \<Rightarrow>
                       failure (UnresolvedGateway (Gateway routeEntry) cur) hs
                         srcEquipment srcIP dstIP
                   | Some next \<Rightarrow>
                       if next = [] then
                         failure (UnresolvedGateway (Gateway routeEntry) cur) hs
                           srcEquipment srcIP dstIP
                       else
                         traceLoop srcEquipment srcIP dstIP routingTable (hopCount + 1)
                           (hs @ [\<lparr>currentEquipment = cur,
                                   destNetwork = IP_Destino routeEntry @ Mascara routeEntry,
                                   gateway = Gateway routeEntry,
                                   nextEquipment = Some next\<rparr>])
                           (insert cur visited) next)))
      else failure (HopLimitExceeded MAX_HOPS) hs srcEquipment srcIP dstIP)"
  by pat_completeness auto

termination
  by (relation "measure (\<lambda>(srcEquipment, srcIP, dstIP, routingTable, hopCount, hs, visited, cur).
                            MAX_HOPS - hopCount)") auto

declare traceLoop.simps [simp del]

text \<open>
  \<open>executeTraceroute\<close>: the two checks before the loop, then the loop from
  \<open>hopCount = 0\<close>, no hops, nothing visited, at the source device.
\<close>

definition executeTraceroute :: "string \<Rightarrow> string \<Rightarrow> string \<Rightarrow> RouteRecord list \<Rightarrow> TraceResult" where
  "executeTraceroute srcEquipment srcIP dstIP routingTable =
     (if srcEquipment = [] \<or> srcIP = [] \<or> dstIP = [] \<or> routingTable = [] then
        failure InvalidInput [] srcEquipment srcIP dstIP
      else if \<not> list_ex (\<lambda>r. Equipo r = srcEquipment) routingTable then
        failure (UnknownDevice srcEquipment) [] srcEquipment srcIP dstIP
      else traceLoop srcEquipment srcIP dstIP routingTable 0 [] {} srcEquipment)"

section \<open>Notions used to state the properties\<close>

text \<open>
  Containment as the specification words it. An address is a dotted quad: four pieces
  of one to three decimal digits, each at most 255, read as a 32-bit number. A prefix
  length is written \<open>/p\<close> with \<open>p\<close> from 0 to 32; its mask has the top \<open>p\<close> bits set, and
  a network contains an address when the two agree under the mask. A network of
  prefix length 0 contains every address.
\<close>

definition octet :: "string \<Rightarrow> nat option" where
  "octet s =
     (if allDigits 10 s \<and> length s \<le> 3 \<and> digitsValue 10 s \<le> 255
      then Some (digitsValue 10 s) else None)"

definition dottedQuad :: "string \<Rightarrow> 32 word option" where
  "dottedQuad s =
     (case map octet (split CHR ''.'' s) of
        [Some a, Some b, Some c, Some d] \<Rightarrow>
          Some (push_bit 24 (of_nat a) OR push_bit 16 (of_nat b) OR push_bit 8 (of_nat c) OR
                of_nat d)
      | _ \<Rightarrow> None)"

definition prefixLengthOf :: "string \<Rightarrow> nat option" where
  "prefixLengthOf m =
     (case m of
        [] \<Rightarrow> None
      | c # ds \<Rightarrow>
          if c = CHR ''/'' \<and> allDigits 10 ds \<and> length ds \<le> 2 \<and> digitsValue 10 ds \<le> 32
          then Some (digitsValue 10 ds) else None)"

definition prefixMask :: "nat \<Rightarrow> 32 word" where
  "prefixMask p = NOT (mask (32 - p))"

definition containsAddress :: "string \<Rightarrow> string \<Rightarrow> string \<Rightarrow> bool" where
  "containsAddress network m address =
     (case (dottedQuad network, prefixLengthOf m, dottedQuad address) of
        (Some n, Some p, Some a) \<Rightarrow> (a AND prefixMask p) = (n AND prefixMask p)
      | _ \<Rightarrow> False)"

text \<open>
  The records of a device that contain the destination, in table order, and the
  selection among them as the specification words it: the first record that none
  exceeds in prefix length.
\<close>

definition containingRecords :: "string \<Rightarrow> string \<Rightarrow> RouteRecord list \<Rightarrow> RouteRecord list" where
  "containingRecords dev dstIP routingTable =
     filter (\<lambda>r. Equipo r = dev \<and> containsAddress (IP_Destino r) (Mascara r) dstIP)
       routingTable"

definition prefixOf :: "RouteRecord \<Rightarrow> nat" where
  "prefixOf r = (case prefixLengthOf (Mascara r) of None \<Rightarrow> 0 | Some p \<Rightarrow> p)"

definition mostSpecific :: "RouteRecord list \<Rightarrow> RouteRecord option" where
  "mostSpecific ms = find (\<lambda>r. list_all (\<lambda>m. prefixOf m \<le> prefixOf r) ms) ms"

text \<open>
  On the side of the code: \<open>acceptedRows\<close> is the array \<open>matches\<close> of \<open>findRouteEntry\<close>,
  the rows of the device that \<open>isIPInNetwork\<close> accepts, and \<open>firstGreatest\<close> is the first
  of a list of rows that none exceeds in the mask that \<open>parseInt\<close> reads.
\<close>

definition acceptedRows :: "string \<Rightarrow> string \<Rightarrow> RouteRecord list \<Rightarrow> RouteRecord list" where
  "acceptedRows dev dstIP routingTable =
     filter (\<lambda>r. Equipo r = dev \<and> isIPInNetwork dstIP (IP_Destino r) (Mascara r)) routingTable"

definition firstGreatest :: "RouteRecord list \<Rightarrow> RouteRecord option" where
  "firstGreatest ms = find (\<lambda>r. list_all (\<lambda>m. \<not> js_gt (maskOf m) (maskOf r)) ms) ms"

text \<open>
  \<open>forwardHop t dst a\<close> is the hop that the table makes a packet for \<open>dst\<close> take at device
  \<open>a\<close> when it forwards it: the selected route has a gateway, and the gateway resolves
  to a device with a name. \<open>nextDevice\<close> is that device.
\<close>

definition forwardHop :: "RouteRecord list \<Rightarrow> string \<Rightarrow> string \<Rightarrow> Hop option" where
  "forwardHop routingTable dstIP a =
     (case findRouteEntry a dstIP routingTable of
        None \<Rightarrow> None
      | Some e \<Rightarrow>
          if toLowerCase (Gateway e) = ''directo'' then None
          else (case findEquipmentByGateway (Gateway e) routingTable a of
                  None \<Rightarrow> None
                | Some b \<Rightarrow>
                    if b = [] then None
                    else Some \<lparr>currentEquipment = a,
                               destNetwork = IP_Destino e @ Mascara e,
                               gateway = Gateway e,
                               nextEquipment = Some b\<rparr>))"

definition nextDevice :: "RouteRecord list \<Rightarrow> string \<Rightarrow> string \<Rightarrow> string option" where
  "nextDevice routingTable dstIP a =
     (case forwardHop routingTable dstIP a of None \<Rightarrow> None | Some h \<Rightarrow> nextEquipment h)"

text \<open>A chain of devices, each forwarding to the next one toward the destination.\<close>

fun forwardChain :: "RouteRecord list \<Rightarrow> string \<Rightarrow> string list \<Rightarrow> bool" where
  "forwardChain routingTable dstIP (a # b # ds) =
     (nextDevice routingTable dstIP a = Some b \<and> forwardChain routingTable dstIP (b # ds))"
| "forwardChain routingTable dstIP ds = True"

text \<open>
  \<open>follows t dst a hs\<close> walks the hops \<open>hs\<close> from device \<open>a\<close>: it is the device reached
  when every hop is the forwarding hop of the device reached before it, and \<open>None\<close>
  when some hop is not.
\<close>

fun follows :: "RouteRecord list \<Rightarrow> string \<Rightarrow> string \<Rightarrow> Hop list \<Rightarrow> string option" where
  "follows routingTable dstIP a [] = Some a"
| "follows routingTable dstIP a (h # hs) =
     (if forwardHop routingTable dstIP a = Some h
      then (case nextEquipment h of
              None \<Rightarrow> None
            | Some b \<Rightarrow> follows routingTable dstIP b hs)
      else None)"

text \<open>
  Where a failed trace stopped. \<open>failurePoint t dst r c\<close> reads the error of the result
  \<open>r\<close> against the device \<open>c\<close>: a revisit of \<open>c\<close>, no route at \<open>c\<close>, a gateway selected
  at \<open>c\<close> that resolves to no device, or the hop limit; the two checks before the loop
  fail with no hop.
\<close>

definition failurePoint :: "RouteRecord list \<Rightarrow> string \<Rightarrow> TraceResult \<Rightarrow> string \<Rightarrow> bool" where
  "failurePoint routingTable dstIP r c =
     (case error r of
        None \<Rightarrow> False
      | Some InvalidInput \<Rightarrow> hops r = []
      | Some (UnknownDevice e) \<Rightarrow> hops r = []
      | Some (RoutingLoop e) \<Rightarrow> e = c \<and> c \<in> currentEquipment ` set (hops r)
      | Some (NoRoute ip e) \<Rightarrow> e = c \<and> findRouteEntry c dstIP routingTable = None
      | Some (UnresolvedGateway g e) \<Rightarrow>
          e = c \<and> map_option Gateway (findRouteEntry c dstIP routingTable) = Some g \<and>
          forwardHop routingTable dstIP c = None
      | Some (HopLimitExceeded n) \<Rightarrow> n = MAX_HOPS \<and> length (hops r) = MAX_HOPS)"

section \<open>Example tables\<close>

text \<open>The table of the README: two routers on one link, the destination behind the second.\<close>

definition exampleTable :: "RouteRecord list" where
  "exampleTable =
     [\<lparr>Equipo = ''RouterA'', IP_Destino = ''10.0.1.0'', Mascara = ''/24'', Gateway = ''directo''\<rparr>,
      \<lparr>Equipo = ''RouterA'', IP_Destino = ''192.168.1.0'', Mascara = ''/24'', Gateway = ''10.0.1.2''\<rparr>,
      \<lparr>Equipo = ''RouterB'', IP_Destino = ''10.0.1.0'', Mascara = ''/24'', Gateway = ''directo''\<rparr>,
      \<lparr>Equipo = ''RouterB'', IP_Destino = ''192.168.1.0'', Mascara = ''/24'', Gateway = ''directo''\<rparr>]"

text \<open>The same table with a gateway at the first router that is on no directly connected network.\<close>

definition unresolvedTable :: "RouteRecord list" where
  "unresolvedTable =
     [\<lparr>Equipo = ''RouterA'', IP_Destino = ''10.0.1.0'', Mascara = ''/24'', Gateway = ''directo''\<rparr>,
      \<lparr>Equipo = ''RouterA'', IP_Destino = ''192.168.1.0'', Mascara = ''/24'', Gateway = ''10.0.2.2''\<rparr>,
      \<lparr>Equipo = ''RouterB'', IP_Destino = ''10.0.1.0'', Mascara = ''/24'', Gateway = ''directo''\<rparr>,
      \<lparr>Equipo = ''RouterB'', IP_Destino = ''192.168.1.0'', Mascara = ''/24'', Gateway = ''directo''\<rparr>]"

text \<open>Two routers that send the destination to each other.\<close>

definition loopTable :: "RouteRecord list" where
  "loopTable =
     [\<lparr>Equipo = ''RouterA'', IP_Destino = ''10.0.1.0'', Mascara = ''/24'', Gateway = ''directo''\<rparr>,
      \<lparr>Equipo = ''RouterA'', IP_Destino = ''192.168.1.0'', Mascara = ''/24'', Gateway = ''10.0.2.2''\<rparr>,
      \<lparr>Equipo = ''RouterB'', IP_Destino = ''10.0.2.0'', Mascara = ''/24'', Gateway = ''directo''\<rparr>,
      \<lparr>Equipo = ''RouterB'', IP_Destino = ''192.168.1.0'', Mascara = ''/24'', Gateway = ''10.0.1.1''\<rparr>]"

text \<open>A router with a directly connected network and a default route.\<close>

definition defaultRouteTable :: "RouteRecord list" where
  "defaultRouteTable =
     [\<lparr>Equipo = ''RouterA'', IP_Destino = ''10.0.0.0'', Mascara = ''/24'', Gateway = ''directo''\<rparr>,
      \<lparr>Equipo = ''RouterA'', IP_Destino = ''0.0.0.0'', Mascara = ''/0'', Gateway = ''10.0.0.1''\<rparr>]"

text \<open>
  One router with a /16 route and two /24 routes to the destination, and a second
  router with a longer prefix that is not consulted.
\<close>

definition prefixTable :: "RouteRecord list" where
  "prefixTable =
     [\<lparr>Equipo = ''RouterA'', IP_Destino = ''192.168.0.0'', Mascara = ''/16'', Gateway = ''10.0.1.2''\<rparr>,
      \<lparr>Equipo = ''RouterA'', IP_Destino = ''192.168.1.0'', Mascara = ''/24'', Gateway = ''10.0.1.3''\<rparr>,
      \<lparr>Equipo = ''RouterA'', IP_Destino = ''192.168.1.0'', Mascara = ''/24'', Gateway = ''10.0.1.4''\<rparr>,
      \<lparr>Equipo = ''RouterB'', IP_Destino = ''192.168.1.48'', Mascara = ''/30'', Gateway = ''directo''\<rparr>]"

text \<open>
  A chain of 31 routers: router \<open>i\<close> is on the network \<open>10.0.i.0/24\<close> and sends
  \<open>192.168.100.0/24\<close> to the gateway \<open>10.0.(i+1).1\<close> of the next one.
\<close>

definition chainTable :: "RouteRecord list" where
  "chainTable =
     [\<lparr>Equipo = ''R1'', IP_Destino = ''10.0.1.0'', Mascara = ''/24'', Gateway = ''directo''\<rparr>,
      \<lparr>Equipo = ''R1'', IP_Destino = ''192.168.100.0'', Mascara = ''/24'', Gateway = ''10.0.2.1''\<rparr>,
      \<lparr>Equipo = ''R2'', IP_Destino = ''10.0.2.0'', Mascara = ''/24'', Gateway = ''directo''\<rparr>,
      \<lparr>Equipo = ''R2'', IP_Destino = ''192.168.100.0'', Mascara = ''/24'', Gateway = ''10.0.3.1''\<rparr>,
      \<lparr>Equipo = ''R3'', IP_Destino = ''10.0.3.0'', Mascara = ''/24'', Gateway = ''directo''\<rparr>,
      \<lparr>Equipo = ''R3'', IP_Destino = ''192.168.100.0'', Mascara = ''/24'', Gateway = ''10.0.4.1''\<rparr>,
      \<lparr>Equipo = ''R4'', IP_Destino = ''10.0.4.0'', Mascara = ''/24'', Gateway = ''directo''\<rparr>,
      \<lparr>Equipo = ''R4'', IP_Destino = ''192.168.100.0'', Mascara = ''/24'', Gateway = ''10.0.5.1''\<rparr>,
      \<lparr>Equipo = ''R5'', IP_Destino = ''10.0.5.0'', Mascara = ''/24'', Gateway = ''directo''\<rparr>,
      \<lparr>Equipo = ''R5'', IP_Destino = ''192.168.100.0'', Mascara = ''/24'', Gateway = ''10.0.6.1''\<rparr>,
      \<lparr>Equipo = ''R6'', IP_Destino = ''10.0.6.0'', Mascara = ''/24'', Gateway = ''directo''\<rparr>,
      \<lparr>Equipo = ''R6'', IP_Destino = ''192.168.100.0'', Mascara = ''/24'', Gateway = ''10.0.7.1''\<rparr>,
      \<lparr>Equipo = ''R7'', IP_Destino = ''10.0.7.0'', Mascara = ''/24'', Gateway = ''directo''\<rparr>,
      \<lparr>Equipo = ''R7'', IP_Destino = ''192.168.100.0'', Mascara = ''/24'', Gateway = ''10.0.8.1''\<rparr>,
      \<lparr>Equipo = ''R8'', IP_Destino = ''10.0.8.0'', Mascara = ''/24'', Gateway = ''directo''\<rparr>,
      \<lparr>Equipo = ''R8'', IP_Destino = ''192.168.100.0'', Mascara = ''/24'', Gateway = ''10.0.9.1''\<rparr>,
      \<lparr>Equipo = ''R9'', IP_Destino = ''10.0.9.0'', Mascara = ''/24'', Gateway = ''directo''\<rparr>,
      \<lparr>Equipo = ''R9'', IP_Destino = ''192.168.100.0'', Mascara = ''/24'', Gateway = ''10.0.10.1''\<rparr>,
      \<lparr>Equipo = ''R10'', IP_Destino = ''10.0.10.0'', Mascara = ''/24'', Gateway = ''directo''\<rparr>,
      \<lparr>Equipo = ''R10'', IP_Destino = ''192.168.100.0'', Mascara = ''/24'', Gateway = ''10.0.11.1''\<rparr>,
      \<lparr>Equipo = ''R11'', IP_Destino = ''10.0.11.0'', Mascara = ''/24'', Gateway = ''directo''\<rparr>,
      \<lparr>Equipo = ''R11'', IP_Destino = ''192.168.100.0'', Mascara = ''/24'', Gateway = ''10.0.12.1''\<rparr>,
      \<lparr>Equipo = ''R12'', IP_Destino = ''10.0.12.0'', Mascara = ''/24'', Gateway = ''directo''\<rparr>,
      \<lparr>Equipo = ''R12'', IP_Destino = ''192.168.100.0'', Mascara = ''/24'', Gateway = ''10.0.13.1''\<rparr>,
      \<lparr>Equipo = ''R13'', IP_Destino = ''10.0.13.0'', Mascara = ''/24'', Gateway = ''directo''\<rparr>,
      \<lparr>Equipo = ''R13'', IP_Destino = ''192.168.100.0'', Mascara = ''/24'', Gateway = ''10.0.14.1''\<rparr>,
      \<lparr>Equipo = ''R14'', IP_Destino = ''10.0.14.0'', Mascara = ''/24'', Gateway = ''directo''\<rparr>,
      \<lparr>Equipo = ''R14'', IP_Destino = ''192.168.100.0'', Mascara = ''/24'', Gateway = ''10.0.15.1''\<rparr>,
      \<lparr>Equipo = ''R15'', IP_Destino = ''10.0.15.0'', Mascara = ''/24'', Gateway = ''directo''\<rparr>,
      \<lparr>Equipo = ''R15'', IP_Destino = ''192.168.100.0'', Mascara = ''/24'', Gateway = ''10.0.16.1''\<rparr>,
      \<lparr>Equipo = ''R16'', IP_Destino = ''10.0.16.0'', Mascara = ''/24'', Gateway = ''directo''\<rparr>,
      \<lparr>Equipo = ''R16'', IP_Destino = ''192.168.100.0'', Mascara = ''/24'', Gateway = ''10.0.17.1''\<rparr>,
      \<lparr>Equipo = ''R17'', IP_Destino = ''10.0.17.0'', Mascara = ''/24'', Gateway = ''directo''\<rparr>,
      \<lparr>Equipo = ''R17'', IP_Destino = ''192.168.100.0'', Mascara = ''/24'', Gateway = ''10.0.18.1''\<rparr>,
      \<lparr>Equipo = ''R18'', IP_Destino = ''10.0.18.0'', Mascara = ''/24'', Gateway = ''directo''\<rparr>,
      \<lparr>Equipo = ''R18'', IP_Destino = ''192.168.100.0'', Mascara = ''/24'', Gateway = ''10.0.19.1''\<rparr>,
      \<lparr>Equipo = ''R19'', IP_Destino = ''10.0.19.0'', Mascara = ''/24'', Gateway = ''directo''\<rparr>,
      \<lparr>Equipo = ''R19'', IP_Destino = ''192.168.100.0'', Mascara = ''/24'', Gateway = ''10.0.20.1''\<rparr>,
      \<lparr>Equipo = ''R20'', IP_Destino = ''10.0.20.0'', Mascara = ''/24'', Gateway = ''directo''\<rparr>,
      \<lparr>Equipo = ''R20'', IP_Destino = ''192.168.100.0'', Mascara = ''/24'', Gateway = ''10.0.21.1''\<rparr>,
      \<lparr>Equipo = ''R21'', IP_Destino = ''10.0.21.0'', Mascara = ''/24'', Gateway = ''directo''\<rparr>,
      \<lparr>Equipo = ''R21'', IP_Destino = ''192.168.100.0'', Mascara = ''/24'', Gateway = ''10.0.22.1''\<rparr>,
      \<lparr>Equipo = ''R22'', IP_Destino = ''10.0.22.0'', Mascara = ''/24'', Gateway = ''directo''\<rparr>,
      \<lparr>Equipo = ''R22'', IP_Destino = ''192.168.100.0'', Mascara = ''/24'', Gateway = ''10.0.23.1''\<rparr>,
      \<lparr>Equipo = ''R23'', IP_Destino = ''10.0.23.0'', Mascara = ''/24'', Gateway = ''directo''\<rparr>,
      \<lparr>Equipo = ''R23'', IP_Destino = ''192.168.100.0'', Mascara = ''/24'', Gateway = ''10.0.24.1''\<rparr>,
      \<lparr>Equipo = ''R24'', IP_Destino = ''10.0.24.0'', Mascara = ''/24'', Gateway = ''directo''\<rparr>,
      \<lparr>Equipo = ''R24'', IP_Destino = ''192.168.100.0'', Mascara = ''/24'', Gateway = ''10.0.25.1''\<rparr>,
      \<lparr>Equipo = ''R25'', IP_Destino = ''10.0.25.0'', Mascara = ''/24'', Gateway = ''directo''\<rparr>,
      \<lparr>Equipo = ''R25'', IP_Destino = ''192.168.100.0'', Mascara = ''/24'', Gateway = ''10.0.26.1''\<rparr>,
      \<lparr>Equipo = ''R26'', IP_Destino = ''10.0.26.0'', Mascara = ''/24'', Gateway = ''directo''\<rparr>,
      \<lparr>Equipo = ''R26'', IP_Destino = ''192.168.100.0'', Mascara = ''/24'', Gateway = ''10.0.27.1''\<rparr>,
      \<lparr>Equipo = ''R27'', IP_Destino = ''10.0.27.0'', Mascara = ''/24'', Gateway = ''directo''\<rparr>,
      \<lparr>Equipo = ''R27'', IP_Destino = ''192.168.100.0'', Mascara = ''/24'', Gateway = ''10.0.28.1''\<rparr>,
      \<lparr>Equipo = ''R28'', IP_Destino = ''10.0.28.0'', Mascara = ''/24'', Gateway = ''directo''\<rparr>,
      \<lparr>Equipo = ''R28'', IP_Destino = ''192.168.100.0'', Mascara = ''/24'', Gateway = ''10.0.29.1''\<rparr>,
      \<lparr>Equipo = ''R29'', IP_Destino = ''10.0.29.0'', Mascara = ''/24'', Gateway = ''directo''\<rparr>,
      \<lparr>Equipo = ''R29'', IP_Destino = ''192.168.100.0'', Mascara = ''/24'', Gateway = ''10.0.30.1''\<rparr>,
      \<lparr>Equipo = ''R30'', IP_Destino = ''10.0.30.0'', Mascara = ''/24'', Gateway = ''directo''\<rparr>,
      \<lparr>Equipo = ''R30'', IP_Destino = ''192.168.100.0'', Mascara = ''/24'', Gateway = ''10.0.31.1''\<rparr>,
      \<lparr>Equipo = ''R31'', IP_Destino = ''10.0.31.0'', Mascara = ''/24'', Gateway = ''directo''\<rparr>]"

definition chainDevices :: "string list" where
  "chainDevices =
     [''R1'', ''R2'', ''R3'', ''R4'', ''R5'', ''R6'', ''R7'', ''R8'', ''R9'', ''R10'',
      ''R11'', ''R12'', ''R13'', ''R14'', ''R15'', ''R16'', ''R17'', ''R18'', ''R19'',
      ''R20'', ''R21'', ''R22'', ''R23'', ''R24'', ''R25'', ''R26'', ''R27'', ''R28'',
      ''R29'', ''R30'', ''R31'']"

section \<open>Numbers and the matcher: auxiliary facts\<close>

text \<open>
  Integers below \<open>2 ^ 53\<close> are doubles, so on a short string of decimal digits
  \<open>parseInt\<close> and \<open>Number\<close> give the value of the digits, and a prefix length of
  moderate size reaches the shift unrounded: the matcher compares the two addresses
  after dropping their low \<open>(32 - p) mod 32\<close> bits.
\<close>

lemma bitLength_bounds:
  "0 < n \<Longrightarrow> 2 ^ (bitLength n - 1) \<le> n \<and> n < 2 ^ bitLength n"
proof (induction n rule: bitLength.induct)
  case (1 n)
  show ?case
  proof (cases "n div 2 = 0")
    case True
    with "1.prems" have "n = 1" by (auto simp: div_eq_0_iff)
    then show ?thesis by (simp add: bitLength.simps)
  next
    case False
    then have pos: "0 < n div 2" by simp
    from "1.IH" [OF _ pos] "1.prems"
    have ih: "2 ^ (bitLength (n div 2) - 1) \<le> n div 2" "n div 2 < 2 ^ bitLength (n div 2)"
      by auto
    have bl: "bitLength n = Suc (bitLength (n div 2))"
      using "1.prems" by (subst bitLength.simps) simp
    have "0 < bitLength (n div 2)"
      using pos by (subst bitLength.simps) simp
    then obtain k where k: "bitLength (n div 2) = Suc k" by (cases "bitLength (n div 2)") auto
    from ih show ?thesis unfolding bl k by auto
  qed
qed

lemma doubleIntPart_exact:
  assumes "n < 2 ^ 53"
  shows "doubleIntPart n 1 = n"
proof (cases "n = 0")
  case True
  then show ?thesis by (simp add: doubleIntPart_def bitLength.simps Let_def)
next
  case False
  then have pos: "0 < n" by simp
  define k where "k = bitLength n - 1"
  have b1: "bitLength (Suc 0) = 1" by (simp add: bitLength.simps)
  from bitLength_bounds [OF pos] have lo: "2 ^ k \<le> n" and hi: "n < 2 ^ bitLength n"
    by (auto simp: k_def)
  have "0 < bitLength n" using pos by (subst bitLength.simps) simp
  then have bk: "bitLength n = Suc k" by (simp add: k_def)
  have "k \<le> 52"
  proof (rule ccontr)
    assume "\<not> k \<le> 52"
    then have "53 \<le> k" by simp
    then have "(2::nat) ^ 53 \<le> 2 ^ k" by (rule power_increasing) simp
    with lo assms show False by simp
  qed
  then show ?thesis
    using lo by (simp add: doubleIntPart_def b1 bk Let_def nat_diff_distrib')
qed


lemma roundToDouble_exact: "\<bar>i\<bar> < 2 ^ 53 \<Longrightarrow> roundToDouble i = Fin i"
proof -
  assume a: "\<bar>i\<bar> < 2 ^ 53"
  then have "nat \<bar>i\<bar> < 2 ^ 53" by simp
  then have e: "doubleIntPart (nat \<bar>i\<bar>) 1 = nat \<bar>i\<bar>" by (rule doubleIntPart_exact)
  have "(2::int) ^ 53 \<le> 2 ^ 1024" by (rule power_increasing) simp_all
  with a have "\<not> 2 ^ 1024 \<le> int (nat \<bar>i\<bar>)" by linarith
  then have "roundToDouble i = Fin (if i < 0 then - int (nat \<bar>i\<bar>) else int (nat \<bar>i\<bar>))"
    unfolding roundToDouble_def e Let_def by (rule if_not_P)
  then show ?thesis by simp
qed

lemma isDigit_10_iff: "isDigit 10 c \<longleftrightarrow> 48 \<le> (of_char c :: nat) \<and> (of_char c :: nat) \<le> 57"
  by (auto simp: isDigit_def digitValue_def Let_def)

lemma isDigit_16_decimal: "isDigit 10 c \<Longrightarrow> isDigit 16 c"
  by (auto simp: isDigit_def digitValue_def Let_def split: if_splits)

lemma digit_not_space: "isDigit 10 c \<Longrightarrow> \<not> isWhiteSpace c"
  by (auto simp: isDigit_10_iff isWhiteSpace_def)

lemma digitsValue_bound: "list_all (isDigit 10) s \<Longrightarrow> foldl (\<lambda>a c. a * 10 + (case digitValue c of None \<Rightarrow> 0 | Some d \<Rightarrow> d)) a s < (a + 1) * 10 ^ length s"
proof (induction s arbitrary: a)
  case Nil
  then show ?case by simp
next
  case (Cons c s)
  then have d: "(case digitValue c of None \<Rightarrow> 0 | Some d \<Rightarrow> d) < 10"
    by (auto simp: isDigit_def split: option.splits)
  from Cons have "foldl (\<lambda>a c. a * 10 + (case digitValue c of None \<Rightarrow> 0 | Some d \<Rightarrow> d))
          (a * 10 + (case digitValue c of None \<Rightarrow> 0 | Some d \<Rightarrow> d)) s
        < (a * 10 + (case digitValue c of None \<Rightarrow> 0 | Some d \<Rightarrow> d) + 1) * 10 ^ length s"
    by simp
  also have "\<dots> \<le> ((a + 1) * 10) * 10 ^ length s"
    using d by (intro mult_right_mono) auto
  finally show ?case by (simp add: algebra_simps)
qed

lemma digitsValue_small:
  assumes "list_all (isDigit 10) s" "length s \<le> 15"
  shows "digitsValue 10 s < 2 ^ 53"
proof -
  have "digitsValue 10 s < 10 ^ length s"
    using digitsValue_bound [OF assms(1), of 0] by (simp add: digitsValue_def)
  also have "(10::nat) ^ length s \<le> 10 ^ 15"
    using assms(2) by (intro power_increasing) auto
  also have "(10::nat) ^ 15 < 2 ^ 53" by simp
  finally show ?thesis .
qed


lemma parseInt_decimal:
  assumes "allDigits 10 s" "length s \<le> 15"
  shows "parseInt s = Fin (int (digitsValue 10 s))"
proof -
  from assms(1) obtain c cs where s: "s = c # cs" and c: "isDigit 10 c" and cs: "list_all (isDigit 10) cs"
    by (cases s) (auto simp: allDigits_def)
  have ws: "dropWhile isWhiteSpace s = s" using s c by (simp add: digit_not_space)
  have sg: "take 1 s \<noteq> ''-''" "take 1 s \<noteq> ''+''" using s c by (auto simp: isDigit_10_iff)
  have nohex: "take 2 s \<noteq> ''0x''" "take 2 s \<noteq> ''0X''"
    using s cs by (cases cs; auto simp: isDigit_10_iff)+
  have tw: "takeWhile (isDigit 10) s = s"
    using assms(1) by (simp add: allDigits_def list_all_iff)
  have ne: "s \<noteq> []" using s by simp
  have "\<bar>int (digitsValue 10 s)\<bar> < 2 ^ 53"
    using digitsValue_small [OF _ assms(2)] assms(1)
    by (simp add: allDigits_def)
  then have rd: "roundToDouble (int (digitsValue 10 s)) = Fin (int (digitsValue 10 s))"
    by (rule roundToDouble_exact)
  show ?thesis
    unfolding parseInt_def Let_def ws by (simp only: sg nohex tw ne rd if_False simp_thms)
qed


lemma NumberToInt32_decimal:
  assumes "allDigits 10 s" "length s \<le> 15"
  shows "NumberToInt32 s = of_nat (digitsValue 10 s)"
proof -
  from assms(1) obtain c cs where s: "s = c # cs" and c: "isDigit 10 c" and cs: "list_all (isDigit 10) cs"
    by (cases s) (auto simp: allDigits_def)
  have all: "\<forall>x\<in>set s. isDigit 10 x" using assms(1) by (simp add: allDigits_def list_all_iff)
  have ws: "dropWhile isWhiteSpace s = s" using s c by (simp add: digit_not_space)
  have "last s \<in> set s" using s by (intro last_in_set) simp
  then have "\<not> isWhiteSpace (last s)" using all digit_not_space by blast
  then have "dropWhile isWhiteSpace (rev s) = rev s"
    by (simp add: dropWhile_eq_self_iff hd_rev)
  then have trim: "rev (dropWhile isWhiteSpace (rev (dropWhile isWhiteSpace s))) = s"
    by (simp add: ws)
  have ne: "s \<noteq> []" using s by simp
  have sg: "take 1 s \<noteq> ''-''" "take 1 s \<noteq> ''+''" using s c by (auto simp: isDigit_10_iff)
  have "take 2 s \<noteq> ''0x''" "take 2 s \<noteq> ''0X''" "take 2 s \<noteq> ''0o''"
       "take 2 s \<noteq> ''0O''" "take 2 s \<noteq> ''0b''" "take 2 s \<noteq> ''0B''"
    using s cs by (cases cs; auto simp: isDigit_10_iff)+
  then have nd: "nonDecimalLiteral s = None"
    unfolding nonDecimalLiteral_def Let_def by (simp only: simp_thms if_False)
  have ninf: "s \<noteq> ''Infinity''" using s c by (auto simp: isDigit_10_iff)
  have tw: "takeWhile (isDigit 10) s = s" "dropWhile (isDigit 10) s = []"
    using all by simp_all
  have ud: "unsignedDecimalLiteral s = Ratio (digitsValue 10 s) 1"
    unfolding unsignedDecimalLiteral_def Let_def tw by (simp only: ninf ne if_False if_True simp_thms)
  have "digitsValue 10 s < 2 ^ 53"
    using digitsValue_small [OF _ assms(2)] assms(1) by (simp add: allDigits_def)
  then have ex: "doubleIntPart (digitsValue 10 s) 1 = digitsValue 10 s"
    by (rule doubleIntPart_exact)
  show ?thesis
    unfolding NumberToInt32_def trim Let_def
    by (simp only: sg ne nd ud ex if_False simp_thms option.case numval.case)
qed


lemma and_not_mask_eq_iff:
  "(a AND NOT (mask k)) = (b AND NOT (mask k)) \<longleftrightarrow> drop_bit k a = drop_bit k (b :: 32 word)"
proof
  assume h: "a AND NOT (mask k) = b AND NOT (mask k)"
  have "drop_bit k (a AND NOT (mask k)) = drop_bit k a" for a :: "32 word"
    by (rule bit_eqI) (auto simp: bit_simps dest: bit_imp_le_length)
  with h show "drop_bit k a = drop_bit k b" by metis
next
  assume h: "drop_bit k a = drop_bit k b"
  have "a AND NOT (mask k) = push_bit k (drop_bit k a)" for a :: "32 word"
    by (rule bit_eqI) (auto simp: bit_simps)
  with h show "a AND NOT (mask k) = b AND NOT (mask k)" by simp
qed

lemma isIPInNetwork_prefix:
  assumes "parseInt (remove1 CHR ''/'' m) = Fin p" "\<bar>p\<bar> < 2 ^ 52"
  shows "isIPInNetwork ip net m =
           (ip \<noteq> [] \<and> net \<noteq> [] \<and> m \<noteq> [] \<and>
            drop_bit (nat ((32 - p) mod 32)) (ipToNumber ip) =
            drop_bit (nat ((32 - p) mod 32)) (ipToNumber net))"
proof -
  have "\<bar>32 - p\<bar> < 2 ^ 53" using assms(2) by simp
  then have "roundToDouble (32 - p) = Fin (32 - p)" by (rule roundToDouble_exact)
  then have "shiftCount (js_minus 32 (parseInt (remove1 CHR ''/'' m))) = nat ((32 - p) mod 32)"
    by (simp add: assms(1) js_minus_def shiftCount_def)
  then show ?thesis
    by (simp add: isIPInNetwork_def Let_def and_not_mask_eq_iff)
qed

lemma isIPInNetwork_decimal:
  assumes "allDigits 10 (remove1 CHR ''/'' m)" "length (remove1 CHR ''/'' m) \<le> 15"
  shows "isIPInNetwork ip net m =
           (ip \<noteq> [] \<and> net \<noteq> [] \<and> m \<noteq> [] \<and>
            drop_bit (nat ((32 - int (digitsValue 10 (remove1 CHR ''/'' m))) mod 32)) (ipToNumber ip) =
            drop_bit (nat ((32 - int (digitsValue 10 (remove1 CHR ''/'' m))) mod 32)) (ipToNumber net))"
proof (rule isIPInNetwork_prefix)
  show "parseInt (remove1 CHR ''/'' m) = Fin (int (digitsValue 10 (remove1 CHR ''/'' m)))"
    using assms by (rule parseInt_decimal)
  have "digitsValue 10 (remove1 CHR ''/'' m) < 10 ^ 15"
  proof -
    have "digitsValue 10 (remove1 CHR ''/'' m) < 10 ^ length (remove1 CHR ''/'' m)"
      using digitsValue_bound [of "remove1 CHR ''/'' m" 0] assms(1)
      by (simp add: digitsValue_def allDigits_def)
    also have "(10::nat) ^ length (remove1 CHR ''/'' m) \<le> 10 ^ 15"
      using assms(2) by (intro power_increasing) auto
    finally show ?thesis .
  qed
  then have "int (digitsValue 10 (remove1 CHR ''/'' m)) < 10 ^ 15" 
    by (metis of_nat_less_iff of_nat_numeral of_nat_power)
  then show "\<bar>int (digitsValue 10 (remove1 CHR ''/'' m))\<bar> < 2 ^ 52" by simp
qed

lemma ipToNumber_quad:
  assumes "length (split CHR ''.'' ip) = 4"
  shows "ipToNumber ip =
           push_bit 24 (NumberToInt32 (split CHR ''.'' ip ! 0)) OR
           push_bit 16 (NumberToInt32 (split CHR ''.'' ip ! 1)) OR
           push_bit 8 (NumberToInt32 (split CHR ''.'' ip ! 2)) OR
           NumberToInt32 (split CHR ''.'' ip ! 3)"
  using assms by (auto simp add: ipToNumber_def Let_def)

lemmas matcher_eval =
  isIPInNetwork_decimal ipToNumber_quad NumberToInt32_decimal
  allDigits_def isDigit_def digitValue_def digitsValue_def Let_def

text \<open>
  On dotted quads and prefix lengths from 1 to 32 the matcher is containment. Prefix
  length 0 is not among them: see claim C1.
\<close>

lemma octet_Some:
  assumes "octet s = Some a"
  shows "NumberToInt32 s = of_nat a"
proof -
  from assms have "allDigits 10 s" "length s \<le> 15" "a = digitsValue 10 s"
    by (auto simp: octet_def split: if_splits)
  then show ?thesis by (simp add: NumberToInt32_decimal)
qed

lemma ipToNumber_dottedQuad:
  assumes "dottedQuad s = Some w"
  shows "ipToNumber s = w"
proof -
  from assms obtain a b c d where
    m: "map octet (split CHR ''.'' s) = [Some a, Some b, Some c, Some d]" and
    w: "w = push_bit 24 (of_nat a) OR push_bit 16 (of_nat b) OR push_bit 8 (of_nat c) OR of_nat d"
    by (auto simp: dottedQuad_def split: list.splits option.splits)
  from m obtain sa sb sc sd where sp: "split CHR ''.'' s = [sa, sb, sc, sd]"
    and o: "octet sa = Some a" "octet sb = Some b" "octet sc = Some c" "octet sd = Some d"
    by (auto simp: map_eq_Cons_conv)
  have "length (split CHR ''.'' s) = 4" by (simp add: sp)
  from ipToNumber_quad [OF this] show ?thesis
    by (simp add: sp w octet_Some [OF o(1)] octet_Some [OF o(2)] octet_Some [OF o(3)]
          octet_Some [OF o(4)])
qed

lemma dottedQuad_nonempty: "dottedQuad s = Some w \<Longrightarrow> s \<noteq> []"
  by (auto simp: dottedQuad_def octet_def allDigits_def)

lemma prefixLengthOf_Some:
  assumes "prefixLengthOf m = Some p"
  shows "parseInt (remove1 CHR ''/'' m) = Fin (int p)" and "p \<le> 32" and "m \<noteq> []"
proof -
  from assms obtain ds where m: "m = CHR ''/'' # ds" and d: "allDigits 10 ds" "length ds \<le> 2"
    "digitsValue 10 ds \<le> 32" "p = digitsValue 10 ds"
    by (auto simp: prefixLengthOf_def split: list.splits if_splits)
  from d(1,2) have "parseInt ds = Fin (int (digitsValue 10 ds))"
    by (intro parseInt_decimal) auto
  then show "parseInt (remove1 CHR ''/'' m) = Fin (int p)" by (simp add: m d(4))
  show "p \<le> 32" using d by simp
  show "m \<noteq> []" using m by simp
qed

lemma isIPInNetwork_contains:
  assumes "prefixLengthOf m = Some p" "1 \<le> p" "dottedQuad net = Some n" "dottedQuad a = Some w"
  shows "isIPInNetwork a net m = containsAddress net m a"
proof -
  note pl = prefixLengthOf_Some [OF assms(1)]
  have "\<bar>int p\<bar> < 2 ^ 52" using pl(2) by simp
  note ch = isIPInNetwork_prefix [OF pl(1) this, of a net]
  have "0 \<le> 32 - int p" "32 - int p < 32" using pl(2) assms(2) by simp_all
  then have "(32 - int p) mod 32 = 32 - int p" by (rule mod_pos_pos_trivial)
  then have k: "nat ((32 - int p) mod 32) = 32 - p" by (simp only:)
  show ?thesis
    unfolding ch k
    using assms pl(3) dottedQuad_nonempty [OF assms(3)] dottedQuad_nonempty [OF assms(4)]
    by (simp add: containsAddress_def prefixMask_def and_not_mask_eq_iff
          ipToNumber_dottedQuad [OF assms(3)] ipToNumber_dottedQuad [OF assms(4)])
qed

lemma prefixMask_eq_iff:
  "(a AND prefixMask p) = (n AND prefixMask p) \<longleftrightarrow> drop_bit (32 - p) a = drop_bit (32 - p) n"
  by (simp add: prefixMask_def and_not_mask_eq_iff)

lemma prefixMask_eq_0_iff:
  "(a AND prefixMask p) = 0 \<longleftrightarrow> drop_bit (32 - p) a = 0"
  "0 = (a AND prefixMask p) \<longleftrightarrow> drop_bit (32 - p) a = 0"
  using prefixMask_eq_iff [of a p 0] by auto

lemmas contains_eval =
  containingRecords_def containsAddress_def dottedQuad_def octet_def prefixLengthOf_def
  prefixOf_def prefixMask_eq_iff prefixMask_eq_0_iff allDigits_def isDigit_def digitValue_def digitsValue_def Let_def

section \<open>Route selection: auxiliary facts\<close>

text \<open>
  The \<open>reduce\<close> of \<open>findRouteEntry\<close> returns the first of the accepted rows that none
  exceeds, so on a table whose rows at the device are dotted quads with prefix lengths
  from 1 to 32 the selected route is the most specific containing record.
\<close>

lemma js_gt_order:
  assumes "x \<noteq> NaN" "y \<noteq> NaN" "r \<noteq> NaN"
  shows "js_gt x r \<Longrightarrow> \<not> js_gt y r \<Longrightarrow> js_gt x y"
    and "\<not> js_gt x r \<Longrightarrow> \<not> js_gt r y \<Longrightarrow> \<not> js_gt x y"
    and "\<not> js_gt r r"
  using assms by (cases x; cases y; cases r; simp)+

lemma js_gt_asym: "js_gt a b \<Longrightarrow> \<not> js_gt b a"
  by (cases a; cases b; simp)

lemma acceptedRows_filter:
  "filter (\<lambda>route. isIPInNetwork dst (IP_Destino route) (Mascara route))
     (filter (\<lambda>route. Equipo route = dev) t) = acceptedRows dev dst t"
  by (simp add: acceptedRows_def conj_commute)

lemma findRouteEntry_matching:
  "findRouteEntry dev dst t =
     (case acceptedRows dev dst t of
        [] \<Rightarrow> None
      | first # others \<Rightarrow>
          Some (foldl (\<lambda>best current. if js_gt (maskOf current) (maskOf best) then current else best)
                  first others))"
  by (simp add: findRouteEntry_def acceptedRows_def conj_commute Let_def)

lemma reduce_firstGreatest:
  assumes "\<forall>r\<in>set (b # xs). maskOf r \<noteq> NaN"
  shows "firstGreatest (b # xs) =
           Some (foldl (\<lambda>best current. if js_gt (maskOf current) (maskOf best) then current else best) b xs)"
  using assms
proof (induction xs rule: rev_induct)
  case Nil
  then show ?case by (simp add: firstGreatest_def js_gt_order(3))
next
  case (snoc x xs)
  let ?step = "\<lambda>best current. if js_gt (maskOf current) (maskOf best) then current else best"
  let ?r = "foldl ?step b xs"
  let ?ys = "b # xs"
  let ?top = "\<lambda>ms r. list_all (\<lambda>m. \<not> js_gt (maskOf m) (maskOf r)) ms"
  from snoc have ih: "find (?top ?ys) ?ys = Some ?r" by (simp add: firstGreatest_def)
  from snoc.prems have nn: "\<forall>r\<in>set ?ys. maskOf r \<noteq> NaN" and nx: "maskOf x \<noteq> NaN" by auto
  from ih obtain i where i: "i < length ?ys" "?top ?ys (?ys ! i)" "?r = ?ys ! i"
    "\<forall>j<i. \<not> ?top ?ys (?ys ! j)"
    unfolding find_Some_iff by blast
  have rin: "?r \<in> set ?ys" using i(1,3) nth_mem by metis
  then have nr: "maskOf ?r \<noteq> NaN" using nn by blast
  have top_r: "\<forall>m\<in>set ?ys. \<not> js_gt (maskOf m) (maskOf ?r)"
    using i(2,3) by (simp add: list_all_iff)
  show ?case
  proof (cases "js_gt (maskOf x) (maskOf ?r)")
    case True
    have res: "foldl ?step b (xs @ [x]) = x" using True by simp
    have below: "js_gt (maskOf x) (maskOf y)" if "y \<in> set ?ys" for y
      using js_gt_order(1) [OF nx _ nr True] top_r nn that by blast
    have "find (?top (?ys @ [x])) (?ys @ [x]) = Some x"
      unfolding find_Some_iff
    proof (intro exI [of _ "length ?ys"] conjI allI impI)
      show "length ?ys < length (?ys @ [x])" by simp
      have "\<not> js_gt (maskOf m) (maskOf x)" if "m \<in> set (?ys @ [x])" for m
      proof (cases "m = x")
        case True
        then show ?thesis using js_gt_order(3) [OF nx nx nx] by simp
      next
        case False
        with that have "m \<in> set ?ys" by auto
        then show ?thesis using below js_gt_asym by blast
      qed
      then show "?top (?ys @ [x]) ((?ys @ [x]) ! length ?ys)"
        unfolding list_all_iff nth_append_length by blast
      show "x = (?ys @ [x]) ! length ?ys" by (simp add: nth_append)
    next
      fix j assume j: "j < length ?ys"
      then have "?ys ! j \<in> set ?ys" by (rule nth_mem)
      then have g: "js_gt (maskOf x) (maskOf (?ys ! j))" by (rule below)
      have e: "(?ys @ [x]) ! j = ?ys ! j" using j by (simp only: nth_append if_True)
      have "x \<in> set (?ys @ [x])" by simp
      with g show "\<not> ?top (?ys @ [x]) ((?ys @ [x]) ! j)"
        unfolding e list_all_iff by blast
    qed
    then show ?thesis using res by (simp add: firstGreatest_def)
  next
    case False
    have res: "foldl ?step b (xs @ [x]) = ?r" using False by simp
    have "find (?top (?ys @ [x])) (?ys @ [x]) = Some ?r"
      unfolding find_Some_iff
    proof (intro exI [of _ i] conjI allI impI)
      show "i < length (?ys @ [x])" using i(1) by simp
      have e: "(?ys @ [x]) ! i = ?ys ! i" using i(1) by (simp only: nth_append if_True)
      have "\<forall>m\<in>set (?ys @ [x]). \<not> js_gt (maskOf m) (maskOf ?r)"
        using top_r False by auto
      then show "?top (?ys @ [x]) ((?ys @ [x]) ! i)"
        unfolding e list_all_iff i(3) [symmetric] .
      show "?r = (?ys @ [x]) ! i" unfolding e by (rule i(3))
    next
      fix j assume j: "j < i"
      with i(4) have "\<not> ?top ?ys (?ys ! j)" by blast
      then obtain m where m: "m \<in> set ?ys" "js_gt (maskOf m) (maskOf (?ys ! j))"
        unfolding list_all_iff by blast
      have e: "(?ys @ [x]) ! j = ?ys ! j" using j i(1) by (simp only: nth_append) simp
      have "m \<in> set (?ys @ [x])" using m(1) by auto
      with m(2) show "\<not> ?top (?ys @ [x]) ((?ys @ [x]) ! j)"
        unfolding e list_all_iff by blast
    qed
    then show ?thesis using res by (simp add: firstGreatest_def)
  qed
qed

lemma findRouteEntry_firstGreatest:
  assumes "list_all (\<lambda>r. maskOf r \<noteq> NaN) (acceptedRows dev dst t)"
  shows "findRouteEntry dev dst t = firstGreatest (acceptedRows dev dst t)"
proof (cases "acceptedRows dev dst t")
  case Nil
  then show ?thesis by (simp add: findRouteEntry_matching firstGreatest_def)
next
  case (Cons b xs)
  with assms have "\<forall>r\<in>set (b # xs). maskOf r \<noteq> NaN" by (simp add: list_all_iff)
  from reduce_firstGreatest [OF this] show ?thesis
    by (simp add: findRouteEntry_matching Cons)
qed

lemma findRouteEntry_mostSpecific:
  assumes d: "dottedQuad dst = Some w"
    and wf: "\<And>r. r \<in> set t \<Longrightarrow> Equipo r = dev \<Longrightarrow>
               dottedQuad (IP_Destino r) \<noteq> None \<and>
               (\<exists>p. prefixLengthOf (Mascara r) = Some p \<and> 1 \<le> p)"
  shows "findRouteEntry dev dst t = mostSpecific (containingRecords dev dst t)"
proof -
  have eq: "acceptedRows dev dst t = containingRecords dev dst t"
    unfolding acceptedRows_def containingRecords_def
  proof (rule filter_cong [OF refl])
    fix r assume r: "r \<in> set t"
    show "(Equipo r = dev \<and> isIPInNetwork dst (IP_Destino r) (Mascara r)) =
          (Equipo r = dev \<and> containsAddress (IP_Destino r) (Mascara r) dst)"
    proof (cases "Equipo r = dev")
      case True
      from wf [OF r True] obtain n p where "dottedQuad (IP_Destino r) = Some n"
        "prefixLengthOf (Mascara r) = Some p" "1 \<le> p" by auto
      then show ?thesis using isIPInNetwork_contains [OF _ _ _ d] by simp
    next
      case False
      then show ?thesis by simp
    qed
  qed
  have fin: "maskOf r = Fin (int (prefixOf r))" if "r \<in> set (containingRecords dev dst t)" for r
  proof -
    from that have "r \<in> set t" "Equipo r = dev" by (auto simp: containingRecords_def)
    from wf [OF this] obtain p where p: "prefixLengthOf (Mascara r) = Some p" by auto
    from prefixLengthOf_Some(1) [OF p] show ?thesis by (simp add: maskOf_def prefixOf_def p)
  qed
  then have "list_all (\<lambda>r. maskOf r \<noteq> NaN) (acceptedRows dev dst t)"
    by (simp add: eq list_all_iff)
  then have "findRouteEntry dev dst t = firstGreatest (containingRecords dev dst t)"
    unfolding eq [symmetric] by (rule findRouteEntry_firstGreatest)
  also have "\<dots> = mostSpecific (containingRecords dev dst t)"
    unfolding firstGreatest_def mostSpecific_def
  proof (rule find_cong [OF refl])
    fix r assume r: "r \<in> set (containingRecords dev dst t)"
    have "(\<not> js_gt (maskOf m) (maskOf r)) = (prefixOf m \<le> prefixOf r)"
      if "m \<in> set (containingRecords dev dst t)" for m
      by (simp add: fin [OF r] fin [OF that] not_less)
    then show "list_all (\<lambda>m. \<not> js_gt (maskOf m) (maskOf r)) (containingRecords dev dst t) =
               list_all (\<lambda>m. prefixOf m \<le> prefixOf r) (containingRecords dev dst t)"
      by (simp add: list_all_iff)
  qed
  finally show ?thesis .
qed

section \<open>The loop: auxiliary facts\<close>

lemma toLowerCase_directo: "toLowerCase ''directo'' = ''directo''"
  by (simp add: toLowerCase_def)

lemma findRouteEntry_Some:
  assumes "findRouteEntry dev dst t = Some e"
  shows "e \<in> set t \<and> Equipo e = dev \<and> isIPInNetwork dst (IP_Destino e) (Mascara e)"
proof -
  let ?ms = "filter (\<lambda>route. isIPInNetwork dst (IP_Destino route) (Mascara route))
               (filter (\<lambda>route. Equipo route = dev) t)"
  let ?step = "\<lambda>best current. if js_gt (maskOf current) (maskOf best) then current else best"
  have pick: "foldl ?step b xs \<in> set (b # xs)" for b xs
    by (induction xs arbitrary: b) auto
  from assms obtain b xs where ms: "?ms = b # xs" and e: "e = foldl ?step b xs"
    by (auto simp: findRouteEntry_def Let_def split: list.splits)
  from pick [of b xs] have "e \<in> set ?ms" unfolding ms e .
  then show ?thesis by auto
qed

lemma isIPInNetwork_nonempty: "isIPInNetwork ip net m \<Longrightarrow> ip \<noteq> [] \<and> net \<noteq> [] \<and> m \<noteq> []"
  by (auto simp: isIPInNetwork_def split: if_splits)

lemma forwardHop_Some:
  assumes "forwardHop t dst a = Some h"
  shows "\<exists>e b. findRouteEntry a dst t = Some e \<and> toLowerCase (Gateway e) \<noteq> ''directo'' \<and>
           findEquipmentByGateway (Gateway e) t a = Some b \<and> b \<noteq> [] \<and>
           h = \<lparr>currentEquipment = a, destNetwork = IP_Destino e @ Mascara e,
                gateway = Gateway e, nextEquipment = Some b\<rparr>"
  using assms by (auto simp: forwardHop_def split: option.splits if_splits)

lemma nextDevice_Some:
  "nextDevice t dst a = Some b \<longleftrightarrow>
     (\<exists>h. forwardHop t dst a = Some h \<and> nextEquipment h = Some b)"
  by (auto simp: nextDevice_def split: option.splits)

text \<open>One iteration of the loop, by what the table does at the current device.\<close>

lemma traceLoop_limit:
  "\<not> hopCount < MAX_HOPS \<Longrightarrow>
   traceLoop s sip dst t hopCount hs visited cur = failure (HopLimitExceeded MAX_HOPS) hs s sip dst"
  by (subst traceLoop.simps) simp

lemma traceLoop_revisit:
  "hopCount < MAX_HOPS \<Longrightarrow> cur \<in> visited \<Longrightarrow>
   traceLoop s sip dst t hopCount hs visited cur = failure (RoutingLoop cur) hs s sip dst"
  by (subst traceLoop.simps) simp

lemma traceLoop_forward:
  "hopCount < MAX_HOPS \<Longrightarrow> cur \<notin> visited \<Longrightarrow> forwardHop t dst cur = Some h \<Longrightarrow>
   nextEquipment h = Some b \<Longrightarrow>
   traceLoop s sip dst t hopCount hs visited cur =
     traceLoop s sip dst t (hopCount + 1) (hs @ [h]) (insert cur visited) b"
  by (subst traceLoop.simps) (auto dest!: forwardHop_Some)

lemma traceLoop_stop:
  assumes "hopCount < MAX_HOPS" "cur \<notin> visited" "forwardHop t dst cur = None"
  shows "traceLoop s sip dst t hopCount hs visited cur =
     (case findRouteEntry cur dst t of
        None \<Rightarrow> failure (NoRoute dst cur) hs s sip dst
      | Some e \<Rightarrow>
          if toLowerCase (Gateway e) = ''directo'' then
            \<lparr>success = True, error = None,
             hops = hs @ [\<lparr>currentEquipment = cur, destNetwork = IP_Destino e @ Mascara e,
                          gateway = ''directo'', nextEquipment = None\<rparr>],
             sourceEquipment = s, sourceIP = sip, destIP = dst\<rparr>
          else failure (UnresolvedGateway (Gateway e) cur) hs s sip dst)"
  using assms
  by (subst traceLoop.simps) (auto simp: forwardHop_def split: option.splits if_splits)

lemma trace_cases:
  obtains (limit) "\<not> hopCount < MAX_HOPS"
  | (revisit) "hopCount < MAX_HOPS" "cur \<in> visited"
  | (forward) h b where "hopCount < MAX_HOPS" "cur \<notin> visited" "forwardHop t dst cur = Some h"
      "nextEquipment h = Some b"
  | (stop) "hopCount < MAX_HOPS" "cur \<notin> visited" "forwardHop t dst cur = None"
proof (cases "forwardHop t dst cur")
  case None
  then show ?thesis using limit revisit stop by blast
next
  case (Some h)
  then obtain b where "nextEquipment h = Some b" by (auto dest!: forwardHop_Some)
  with Some show ?thesis using limit revisit forward by blast
qed

lemma hops_failure [simp]: "hops (failure e hs s sip dst) = hs"
  and success_failure [simp]: "success (failure e hs s sip dst) = False"
  and error_failure [simp]: "error (failure e hs s sip dst) = Some e"
  by (simp_all add: failure_def)

lemma traceLoop_hops_bound:
  "length hs \<le> hopCount \<Longrightarrow> hopCount \<le> MAX_HOPS \<Longrightarrow>
   length (hops (traceLoop s sip dst t hopCount hs visited cur)) \<le> MAX_HOPS"
proof (induction "MAX_HOPS - hopCount" arbitrary: hopCount hs visited cur)
  case 0
  then show ?case by (simp add: traceLoop_limit)
next
  case (Suc n)
  then have lt: "hopCount < MAX_HOPS" by simp
  show ?case
  proof (cases rule: trace_cases [where hopCount = hopCount and cur = cur and visited = visited and t = t and dst = dst])
    case limit
    with lt show ?thesis by simp
  next
    case revisit
    then show ?thesis using Suc.prems by (simp add: traceLoop_revisit)
  next
    case (forward h b)
    have "length (hops (traceLoop s sip dst t (hopCount + 1) (hs @ [h]) (insert cur visited) b))
            \<le> MAX_HOPS"
      using Suc.hyps(2) Suc.prems lt by (intro Suc.hyps(1)) auto
    then show ?thesis by (simp add: traceLoop_forward [OF forward])
  next
    case stop
    then show ?thesis using Suc.prems lt
      by (auto simp: traceLoop_stop split: option.splits)
  qed
qed

lemma traceLoop_sourceIP:
  "traceLoop s sip2 dst t hopCount hs visited cur =
     (traceLoop s sip1 dst t hopCount hs visited cur)\<lparr>sourceIP := sip2\<rparr>"
proof (induction "MAX_HOPS - hopCount" arbitrary: hopCount hs visited cur)
  case 0
  then show ?case by (simp add: traceLoop_limit failure_def)
next
  case (Suc n)
  show ?case
  proof (cases rule: trace_cases [where hopCount = hopCount and cur = cur and visited = visited and t = t and dst = dst])
    case limit
    then show ?thesis by (simp add: traceLoop_limit failure_def)
  next
    case revisit
    then show ?thesis by (simp add: traceLoop_revisit failure_def)
  next
    case (forward h b)
    have "traceLoop s sip2 dst t (hopCount + 1) (hs @ [h]) (insert cur visited) b =
          (traceLoop s sip1 dst t (hopCount + 1) (hs @ [h]) (insert cur visited) b)\<lparr>sourceIP := sip2\<rparr>"
      using Suc.hyps(2) forward(1) by (intro Suc.hyps(1)) auto
    then show ?thesis by (simp add: traceLoop_forward [OF forward])
  next
    case stop
    then show ?thesis
      by (auto simp: traceLoop_stop failure_def split: option.splits)
  qed
qed

lemma forwardHop_nonterminal:
  "forwardHop t dst a = Some h \<Longrightarrow>
   nextEquipment h \<noteq> None \<and> toLowerCase (gateway h) \<noteq> ''directo'' \<and> gateway h \<noteq> ''directo''"
  using toLowerCase_directo by (auto dest!: forwardHop_Some)

lemma traceLoop_hop_shape:
  assumes "list_all (\<lambda>h. nextEquipment h \<noteq> None \<and> toLowerCase (gateway h) \<noteq> ''directo'' \<and> gateway h \<noteq> ''directo'') hs"
  shows "let r = traceLoop s sip dst t hopCount hs visited cur
         in if success r
            then \<exists>hs' l. hops r = hs' @ [l] \<and>
                   list_all (\<lambda>h. nextEquipment h \<noteq> None \<and> toLowerCase (gateway h) \<noteq> ''directo'' \<and> gateway h \<noteq> ''directo'') hs' \<and>
                   nextEquipment l = None \<and> gateway l = ''directo''
            else list_all (\<lambda>h. nextEquipment h \<noteq> None \<and> toLowerCase (gateway h) \<noteq> ''directo'' \<and> gateway h \<noteq> ''directo'') (hops r)"
  using assms
proof (induction "MAX_HOPS - hopCount" arbitrary: hopCount hs visited cur)
  case 0
  then show ?case by (simp add: traceLoop_limit)
next
  case (Suc n)
  show ?case
  proof (cases rule: trace_cases [where hopCount = hopCount and cur = cur and visited = visited and t = t and dst = dst])
    case limit
    then show ?thesis using Suc.prems by (simp add: traceLoop_limit)
  next
    case revisit
    then show ?thesis using Suc.prems by (simp add: traceLoop_revisit)
  next
    case (forward h b)
    have "list_all (\<lambda>h. nextEquipment h \<noteq> None \<and> toLowerCase (gateway h) \<noteq> ''directo'' \<and> gateway h \<noteq> ''directo'') (hs @ [h])"
      using Suc.prems forwardHop_nonterminal [OF forward(3)] by simp
    with Suc.hyps(2) forward(1)
    show ?thesis
      unfolding traceLoop_forward [OF forward] by (intro Suc.hyps(1)) auto
  next
    case stop
    then show ?thesis using Suc.prems
      by (auto simp: traceLoop_stop Let_def split: option.splits)
  qed
qed

lemma follows_snoc:
  "follows t dst a (hs @ [h]) =
     (case follows t dst a hs of
        None \<Rightarrow> None
      | Some c \<Rightarrow> if forwardHop t dst c = Some h then nextEquipment h else None)"
proof (induction hs arbitrary: a)
  case Nil
  then show ?case by (auto split: option.splits dest!: forwardHop_Some)
next
  case (Cons x hs)
  then show ?case by (auto split: option.splits)
qed

lemma traceLoop_failure_path:
  assumes "follows t dst s0 hs = Some cur" "length hs = hopCount"
    "visited = currentEquipment ` set hs" "hopCount \<le> MAX_HOPS"
  shows "let r = traceLoop s sip dst t hopCount hs visited cur
         in \<not> success r \<longrightarrow> (\<exists>c. follows t dst s0 (hops r) = Some c \<and> failurePoint t dst r c)"
  using assms
proof (induction "MAX_HOPS - hopCount" arbitrary: hopCount hs visited cur)
  case 0
  then have "hopCount = MAX_HOPS" "\<not> hopCount < MAX_HOPS" by auto
  then show ?case using "0.prems" by (simp add: traceLoop_limit failurePoint_def)
next
  case (Suc n)
  show ?case
  proof (cases rule: trace_cases [where hopCount = hopCount and cur = cur and visited = visited and t = t and dst = dst])
    case limit
    then have "hopCount = MAX_HOPS" using Suc.prems by simp
    then show ?thesis using Suc.prems limit by (simp add: traceLoop_limit failurePoint_def)
  next
    case revisit
    then show ?thesis using Suc.prems by (simp add: traceLoop_revisit failurePoint_def)
  next
    case (forward h b)
    have ce: "currentEquipment h = cur" using forward(3) by (auto dest!: forwardHop_Some)
    have 1: "follows t dst s0 (hs @ [h]) = Some b"
      using Suc.prems(1) forward by (simp add: follows_snoc)
    have 2: "insert cur visited = currentEquipment ` set (hs @ [h])"
      using Suc.prems(3) ce by auto
    show ?thesis
      unfolding traceLoop_forward [OF forward]
      using Suc.hyps(2) forward(1) Suc.prems(2) 1 2
      by (intro Suc.hyps(1)) auto
  next
    case stop
    then show ?thesis using Suc.prems
      by (auto simp: traceLoop_stop failurePoint_def split: option.splits)
  qed
qed

lemma findEquipmentByGateway_other:
  "findEquipmentByGateway gw t cur = Some b \<Longrightarrow> b \<noteq> cur"
  by (induction t) (auto split: if_splits)

lemma nextDevice_facts:
  assumes "nextDevice t dst a = Some b"
  shows "b \<noteq> a" "b \<noteq> []" "dst \<noteq> []" "t \<noteq> []" "list_ex (\<lambda>r. Equipo r = a) t"
    "\<exists>h. forwardHop t dst a = Some h \<and> nextEquipment h = Some b"
proof -
  from assms obtain h where h: "forwardHop t dst a = Some h" "nextEquipment h = Some b"
    by (auto simp: nextDevice_Some)
  then obtain e where e: "findRouteEntry a dst t = Some e"
    "findEquipmentByGateway (Gateway e) t a = Some b" "b \<noteq> []"
    by (auto dest!: forwardHop_Some)
  from findRouteEntry_Some [OF e(1)] have m: "e \<in> set t" "Equipo e = a"
    "isIPInNetwork dst (IP_Destino e) (Mascara e)" by auto
  show "b \<noteq> a" using e(2) by (rule findEquipmentByGateway_other)
  show "b \<noteq> []" by (rule e(3))
  show "dst \<noteq> []" using m(3) by (auto dest: isIPInNetwork_nonempty)
  show "t \<noteq> []" using m(1) by auto
  show "list_ex (\<lambda>r. Equipo r = a) t" using m(1,2) by (auto simp: list_ex_iff)
  show "\<exists>h. forwardHop t dst a = Some h \<and> nextEquipment h = Some b" using h by blast
qed

lemma executeTraceroute_enters_loop:
  assumes "src \<noteq> []" "sip \<noteq> []" "nextDevice t dst src = Some b"
  shows "executeTraceroute src sip dst t = traceLoop src sip dst t 0 [] {} src"
  using assms nextDevice_facts(3,4,5) [OF assms(3)] by (simp add: executeTraceroute_def)

lemma chain_runs_out:
  assumes "forwardChain t dst (c # ds)" "distinct (c # ds)" "set (c # ds) \<inter> visited = {}"
    "hopCount + length ds = MAX_HOPS"
  shows "\<exists>hs'. traceLoop s sip dst t hopCount hs visited c =
                  failure (HopLimitExceeded MAX_HOPS) (hs @ hs') s sip dst \<and>
               length hs' = length ds"
  using assms
proof (induction ds arbitrary: c hopCount hs visited)
  case Nil
  then show ?case by (simp add: traceLoop_limit)
next
  case (Cons d ds)
  from Cons.prems(1) have nd: "nextDevice t dst c = Some d" and ch: "forwardChain t dst (d # ds)"
    by auto
  from nextDevice_facts(6) [OF nd] obtain h where h: "forwardHop t dst c = Some h"
    "nextEquipment h = Some d" by blast
  have lt: "hopCount < MAX_HOPS" using Cons.prems(4) by simp
  have nv: "c \<notin> visited" using Cons.prems(3) by auto
  have step: "traceLoop s sip dst t hopCount hs visited c =
                traceLoop s sip dst t (hopCount + 1) (hs @ [h]) (insert c visited) d"
    using lt nv h by (rule traceLoop_forward)
  have "\<exists>hs'. traceLoop s sip dst t (hopCount + 1) (hs @ [h]) (insert c visited) d =
                  failure (HopLimitExceeded MAX_HOPS) ((hs @ [h]) @ hs') s sip dst \<and>
               length hs' = length ds"
    using ch Cons.prems(2,3,4) by (intro Cons.IH) auto
  then obtain hs' where "traceLoop s sip dst t (hopCount + 1) (hs @ [h]) (insert c visited) d =
      failure (HopLimitExceeded MAX_HOPS) ((hs @ [h]) @ hs') s sip dst" "length hs' = length ds"
    by blast
  then show ?case unfolding step by (intro exI [of _ "h # hs'"]) simp
qed

section \<open>Evaluation on the example tables\<close>

lemma toLowerCase_other_length: "length s \<noteq> 7 \<Longrightarrow> (toLowerCase s = ''directo'') = False"
  by (auto simp: toLowerCase_def dest: arg_cong [where f = length])

lemmas matcher_unfold =
  isIPInNetwork_def ipToNumber_def NumberToInt32_def nonDecimalLiteral_def
  unsignedDecimalLiteral_def parseInt_def roundToDouble_def doubleIntPart_def bitLength.simps
  js_minus_def shiftCount_def isWhiteSpace_def allDigits_def isDigit_def digitValue_def
  digitsValue_def and_not_mask_eq_iff Let_def

lemmas route_eval =
  findRouteEntry_def maskOf_def parseInt_decimal forwardHop_def nextDevice_def
  toLowerCase_other_length toLowerCase_directo matcher_eval

lemmas run_eval =
  executeTraceroute_def traceLoop.simps MAX_HOPS_def failure_def route_eval

lemma isIPInNetwork_24:
  "isIPInNetwork ip net ''/24'' =
     (ip \<noteq> [] \<and> net \<noteq> [] \<and> drop_bit 8 (ipToNumber ip) = drop_bit 8 (ipToNumber net))"
proof -
  have "parseInt (remove1 CHR ''/'' ''/24'') = Fin 24" by (simp add: route_eval)
  from isIPInNetwork_prefix [OF this] show ?thesis by simp
qed

lemma prefix_zero_compares_all_bits:
  "isIPInNetwork ip net ''/0'' = (ip \<noteq> [] \<and> net \<noteq> [] \<and> ipToNumber ip = ipToNumber net)"
proof -
  have "parseInt (remove1 CHR ''/'' ''/0'') = Fin 0" by (simp add: route_eval)
  from isIPInNetwork_prefix [OF this] show ?thesis by simp
qed

lemma prefixTable_selects_first_24:
  "containingRecords ''RouterA'' ''192.168.1.50'' prefixTable =
     [\<lparr>Equipo = ''RouterA'', IP_Destino = ''192.168.0.0'', Mascara = ''/16'', Gateway = ''10.0.1.2''\<rparr>,
      \<lparr>Equipo = ''RouterA'', IP_Destino = ''192.168.1.0'', Mascara = ''/24'', Gateway = ''10.0.1.3''\<rparr>,
      \<lparr>Equipo = ''RouterA'', IP_Destino = ''192.168.1.0'', Mascara = ''/24'', Gateway = ''10.0.1.4''\<rparr>] \<and>
   findRouteEntry ''RouterA'' ''192.168.1.50'' prefixTable =
     Some \<lparr>Equipo = ''RouterA'', IP_Destino = ''192.168.1.0'', Mascara = ''/24'', Gateway = ''10.0.1.3''\<rparr>"
proof -
  have c: "containingRecords ''RouterA'' ''192.168.1.50'' prefixTable =
     [\<lparr>Equipo = ''RouterA'', IP_Destino = ''192.168.0.0'', Mascara = ''/16'', Gateway = ''10.0.1.2''\<rparr>,
      \<lparr>Equipo = ''RouterA'', IP_Destino = ''192.168.1.0'', Mascara = ''/24'', Gateway = ''10.0.1.3''\<rparr>,
      \<lparr>Equipo = ''RouterA'', IP_Destino = ''192.168.1.0'', Mascara = ''/24'', Gateway = ''10.0.1.4''\<rparr>]"
    by (simp add: prefixTable_def contains_eval)
  have d: "dottedQuad ''192.168.1.50'' = Some 3232235826"
    by (simp add: contains_eval)
  have "findRouteEntry ''RouterA'' ''192.168.1.50'' prefixTable =
          mostSpecific (containingRecords ''RouterA'' ''192.168.1.50'' prefixTable)"
    by (rule findRouteEntry_mostSpecific [OF d])
      (auto simp: prefixTable_def contains_eval)
  then have "findRouteEntry ''RouterA'' ''192.168.1.50'' prefixTable =
     Some \<lparr>Equipo = ''RouterA'', IP_Destino = ''192.168.1.0'', Mascara = ''/24'', Gateway = ''10.0.1.3''\<rparr>"
    unfolding c
    by (simp add: mostSpecific_def contains_eval)
  with c show ?thesis by blast
qed

lemma chain_addresses:
    "ipToNumber ''10.0.1.0'' = 167772416"
    "ipToNumber ''10.0.2.0'' = 167772672"
    "ipToNumber ''10.0.3.0'' = 167772928"
    "ipToNumber ''10.0.4.0'' = 167773184"
    "ipToNumber ''10.0.5.0'' = 167773440"
    "ipToNumber ''10.0.6.0'' = 167773696"
    "ipToNumber ''10.0.7.0'' = 167773952"
    "ipToNumber ''10.0.8.0'' = 167774208"
    "ipToNumber ''10.0.9.0'' = 167774464"
    "ipToNumber ''10.0.10.0'' = 167774720"
    "ipToNumber ''10.0.11.0'' = 167774976"
    "ipToNumber ''10.0.12.0'' = 167775232"
    "ipToNumber ''10.0.13.0'' = 167775488"
    "ipToNumber ''10.0.14.0'' = 167775744"
    "ipToNumber ''10.0.15.0'' = 167776000"
    "ipToNumber ''10.0.16.0'' = 167776256"
    "ipToNumber ''10.0.17.0'' = 167776512"
    "ipToNumber ''10.0.18.0'' = 167776768"
    "ipToNumber ''10.0.19.0'' = 167777024"
    "ipToNumber ''10.0.20.0'' = 167777280"
    "ipToNumber ''10.0.21.0'' = 167777536"
    "ipToNumber ''10.0.22.0'' = 167777792"
    "ipToNumber ''10.0.23.0'' = 167778048"
    "ipToNumber ''10.0.24.0'' = 167778304"
    "ipToNumber ''10.0.25.0'' = 167778560"
    "ipToNumber ''10.0.26.0'' = 167778816"
    "ipToNumber ''10.0.27.0'' = 167779072"
    "ipToNumber ''10.0.28.0'' = 167779328"
    "ipToNumber ''10.0.29.0'' = 167779584"
    "ipToNumber ''10.0.30.0'' = 167779840"
    "ipToNumber ''10.0.31.0'' = 167780096"
    "ipToNumber ''10.0.2.1'' = 167772673"
    "ipToNumber ''10.0.3.1'' = 167772929"
    "ipToNumber ''10.0.4.1'' = 167773185"
    "ipToNumber ''10.0.5.1'' = 167773441"
    "ipToNumber ''10.0.6.1'' = 167773697"
    "ipToNumber ''10.0.7.1'' = 167773953"
    "ipToNumber ''10.0.8.1'' = 167774209"
    "ipToNumber ''10.0.9.1'' = 167774465"
    "ipToNumber ''10.0.10.1'' = 167774721"
    "ipToNumber ''10.0.11.1'' = 167774977"
    "ipToNumber ''10.0.12.1'' = 167775233"
    "ipToNumber ''10.0.13.1'' = 167775489"
    "ipToNumber ''10.0.14.1'' = 167775745"
    "ipToNumber ''10.0.15.1'' = 167776001"
    "ipToNumber ''10.0.16.1'' = 167776257"
    "ipToNumber ''10.0.17.1'' = 167776513"
    "ipToNumber ''10.0.18.1'' = 167776769"
    "ipToNumber ''10.0.19.1'' = 167777025"
    "ipToNumber ''10.0.20.1'' = 167777281"
    "ipToNumber ''10.0.21.1'' = 167777537"
    "ipToNumber ''10.0.22.1'' = 167777793"
    "ipToNumber ''10.0.23.1'' = 167778049"
    "ipToNumber ''10.0.24.1'' = 167778305"
    "ipToNumber ''10.0.25.1'' = 167778561"
    "ipToNumber ''10.0.26.1'' = 167778817"
    "ipToNumber ''10.0.27.1'' = 167779073"
    "ipToNumber ''10.0.28.1'' = 167779329"
    "ipToNumber ''10.0.29.1'' = 167779585"
    "ipToNumber ''10.0.30.1'' = 167779841"
    "ipToNumber ''10.0.31.1'' = 167780097"
    "ipToNumber ''192.168.100.0'' = 3232261120"
    "ipToNumber ''192.168.100.7'' = 3232261127"
  by (simp_all add: matcher_eval)

lemma chain_forwards:
    "nextDevice chainTable ''192.168.100.7'' ''R1'' = Some ''R2''"
    "nextDevice chainTable ''192.168.100.7'' ''R2'' = Some ''R3''"
    "nextDevice chainTable ''192.168.100.7'' ''R3'' = Some ''R4''"
    "nextDevice chainTable ''192.168.100.7'' ''R4'' = Some ''R5''"
    "nextDevice chainTable ''192.168.100.7'' ''R5'' = Some ''R6''"
    "nextDevice chainTable ''192.168.100.7'' ''R6'' = Some ''R7''"
    "nextDevice chainTable ''192.168.100.7'' ''R7'' = Some ''R8''"
    "nextDevice chainTable ''192.168.100.7'' ''R8'' = Some ''R9''"
    "nextDevice chainTable ''192.168.100.7'' ''R9'' = Some ''R10''"
    "nextDevice chainTable ''192.168.100.7'' ''R10'' = Some ''R11''"
    "nextDevice chainTable ''192.168.100.7'' ''R11'' = Some ''R12''"
    "nextDevice chainTable ''192.168.100.7'' ''R12'' = Some ''R13''"
    "nextDevice chainTable ''192.168.100.7'' ''R13'' = Some ''R14''"
    "nextDevice chainTable ''192.168.100.7'' ''R14'' = Some ''R15''"
    "nextDevice chainTable ''192.168.100.7'' ''R15'' = Some ''R16''"
    "nextDevice chainTable ''192.168.100.7'' ''R16'' = Some ''R17''"
    "nextDevice chainTable ''192.168.100.7'' ''R17'' = Some ''R18''"
    "nextDevice chainTable ''192.168.100.7'' ''R18'' = Some ''R19''"
    "nextDevice chainTable ''192.168.100.7'' ''R19'' = Some ''R20''"
    "nextDevice chainTable ''192.168.100.7'' ''R20'' = Some ''R21''"
    "nextDevice chainTable ''192.168.100.7'' ''R21'' = Some ''R22''"
    "nextDevice chainTable ''192.168.100.7'' ''R22'' = Some ''R23''"
    "nextDevice chainTable ''192.168.100.7'' ''R23'' = Some ''R24''"
    "nextDevice chainTable ''192.168.100.7'' ''R24'' = Some ''R25''"
    "nextDevice chainTable ''192.168.100.7'' ''R25'' = Some ''R26''"
    "nextDevice chainTable ''192.168.100.7'' ''R26'' = Some ''R27''"
    "nextDevice chainTable ''192.168.100.7'' ''R27'' = Some ''R28''"
    "nextDevice chainTable ''192.168.100.7'' ''R28'' = Some ''R29''"
    "nextDevice chainTable ''192.168.100.7'' ''R29'' = Some ''R30''"
    "nextDevice chainTable ''192.168.100.7'' ''R30'' = Some ''R31''"
  by (simp_all add: chainTable_def nextDevice_def forwardHop_def findRouteEntry_def
        toLowerCase_other_length toLowerCase_directo isIPInNetwork_24 chain_addresses)

section \<open>The claims\<close>

text \<open>
  Claim C1. For every syntactically valid dotted-quad address and every network
  address, the membership test with \<open>prefixLength = 0\<close> returns true.

  The code does not: \<open>-1 << (32 - 0)\<close> shifts by \<open>32 mod 32 = 0\<close> bits, so the mask of
  prefix length 0 has all 32 bits set and \<open>/0\<close> matches an address only when it reads
  as the same number as the network (\<open>prefix_zero_compares_all_bits\<close>). At the valid
  address \<open>192.168.1.50\<close> and the network \<open>0.0.0.0\<close> the test is false, and the table
  with the single entry \<open>0.0.0.0 /0 directo\<close>, which the application creates for a new
  device, has no route to it.
\<close>

theorem prefix_zero_matches_only_equal_addresses:
  "parseInt (remove1 CHR ''/'' ''/0'') = Fin 0 \<and>
   \<not> isIPInNetwork ''192.168.1.50'' ''0.0.0.0'' ''/0'' \<and>
   executeTraceroute ''Equipo1'' ''192.168.1.1'' ''192.168.1.50''
     [\<lparr>Equipo = ''Equipo1'', IP_Destino = ''0.0.0.0'', Mascara = ''/0'', Gateway = ''directo''\<rparr>] =
     \<lparr>success = False, error = Some (NoRoute ''192.168.1.50'' ''Equipo1''), hops = [],
      sourceEquipment = ''Equipo1'', sourceIP = ''192.168.1.1'', destIP = ''192.168.1.50''\<rparr>"
proof (intro conjI)
  show "parseInt (remove1 CHR ''/'' ''/0'') = Fin 0" by (simp add: route_eval)
  show m: "\<not> isIPInNetwork ''192.168.1.50'' ''0.0.0.0'' ''/0''" by (simp add: route_eval)
  show "executeTraceroute ''Equipo1'' ''192.168.1.1'' ''192.168.1.50''
     [\<lparr>Equipo = ''Equipo1'', IP_Destino = ''0.0.0.0'', Mascara = ''/0'', Gateway = ''directo''\<rparr>] =
     \<lparr>success = False, error = Some (NoRoute ''192.168.1.50'' ''Equipo1''), hops = [],
      sourceEquipment = ''Equipo1'', sourceIP = ''192.168.1.1'', destIP = ''192.168.1.50''\<rparr>"
    using m by (simp add: executeTraceroute_def traceLoop.simps findRouteEntry_def MAX_HOPS_def failure_def)
qed

text \<open>
  Claim C2. Among the records of a device whose network and prefix length contain the
  destination, route selection returns the one with the greatest prefix length, and
  the first of them in table order when several have it.

  The code does not when the containing records are default routes. At the router
  with the network \<open>10.0.0.0/24\<close> and the default route \<open>0.0.0.0/0\<close>, the only record
  that contains \<open>8.8.8.8\<close> is the default route, which is therefore the most specific
  one; \<open>findRouteEntry\<close> returns \<open>null\<close>, because the matcher rejects it (claim C1). On
  records with prefix lengths from 1 to 32 the selection is as claimed
  (\<open>findRouteEntry_mostSpecific\<close>), and between a /16 route and two /24 routes the first
  /24 route is selected (\<open>prefixTable_selects_first_24\<close>).
\<close>

theorem default_route_not_selected:
  "containingRecords ''RouterA'' ''8.8.8.8'' defaultRouteTable =
     [\<lparr>Equipo = ''RouterA'', IP_Destino = ''0.0.0.0'', Mascara = ''/0'', Gateway = ''10.0.0.1''\<rparr>] \<and>
   mostSpecific (containingRecords ''RouterA'' ''8.8.8.8'' defaultRouteTable) =
     Some \<lparr>Equipo = ''RouterA'', IP_Destino = ''0.0.0.0'', Mascara = ''/0'', Gateway = ''10.0.0.1''\<rparr> \<and>
   findRouteEntry ''RouterA'' ''8.8.8.8'' defaultRouteTable = None"
proof -
  have c: "containingRecords ''RouterA'' ''8.8.8.8'' defaultRouteTable =
     [\<lparr>Equipo = ''RouterA'', IP_Destino = ''0.0.0.0'', Mascara = ''/0'', Gateway = ''10.0.0.1''\<rparr>]"
    by (simp add: defaultRouteTable_def contains_eval)
  have m: "mostSpecific (containingRecords ''RouterA'' ''8.8.8.8'' defaultRouteTable) =
     Some \<lparr>Equipo = ''RouterA'', IP_Destino = ''0.0.0.0'', Mascara = ''/0'', Gateway = ''10.0.0.1''\<rparr>"
    unfolding c by (simp add: mostSpecific_def contains_eval)
  have f: "findRouteEntry ''RouterA'' ''8.8.8.8'' defaultRouteTable = None"
    by (simp add: defaultRouteTable_def route_eval)
  from c m f show ?thesis by blast
qed

text \<open>
  Claim C3. \<open>executeTraceroute\<close> makes at most 30 hops on every input, and on a chain
  of 31 distinct devices, each forwarding to the next toward the destination, it fails
  with the hop limit and exactly 30 hops.
\<close>

theorem hop_limit:
  "length (hops (executeTraceroute src sip dst t)) \<le> 30 \<and>
   (forwardChain t dst (d # ds) \<and> length ds = 30 \<and> distinct (d # ds) \<and> d \<noteq> [] \<and> sip \<noteq> [] \<longrightarrow>
      \<not> success (executeTraceroute d sip dst t) \<and>
      error (executeTraceroute d sip dst t) = Some (HopLimitExceeded 30) \<and>
      length (hops (executeTraceroute d sip dst t)) = 30)"
proof (intro conjI impI)
  have "length (hops (traceLoop src sip dst t 0 [] {} src)) \<le> MAX_HOPS"
    by (rule traceLoop_hops_bound) simp_all
  then show "length (hops (executeTraceroute src sip dst t)) \<le> 30"
    by (simp add: executeTraceroute_def MAX_HOPS_def)
next
  assume a: "forwardChain t dst (d # ds) \<and> length ds = 30 \<and> distinct (d # ds) \<and> d \<noteq> [] \<and> sip \<noteq> []"
  then obtain b bs where ds: "ds = b # bs" by (cases ds) auto
  with a have nd: "nextDevice t dst d = Some b" by simp
  have enter: "executeTraceroute d sip dst t = traceLoop d sip dst t 0 [] {} d"
    using a nd by (intro executeTraceroute_enters_loop) auto
  from a have "\<exists>hs'. traceLoop d sip dst t 0 [] {} d =
                  failure (HopLimitExceeded MAX_HOPS) ([] @ hs') d sip dst \<and>
               length hs' = length ds"
    by (intro chain_runs_out) (auto simp: MAX_HOPS_def)
  then obtain hs' where r: "executeTraceroute d sip dst t = failure (HopLimitExceeded MAX_HOPS) hs' d sip dst"
    "length hs' = 30" using a enter by auto
  show "\<not> success (executeTraceroute d sip dst t)" by (simp add: r)
  show "error (executeTraceroute d sip dst t) = Some (HopLimitExceeded 30)"
    by (simp add: r MAX_HOPS_def)
  show "length (hops (executeTraceroute d sip dst t)) = 30" by (simp add: r)
qed

text \<open>The chain of 31 routers \<open>R1\<close>, ..., \<open>R31\<close>.\<close>

theorem hop_limit_witness:
  "length (hops (executeTraceroute ''R1'' ''10.0.1.7'' ''192.168.100.7'' chainTable)) \<le> 30 \<and>
   forwardChain chainTable ''192.168.100.7'' chainDevices \<and>
   length chainDevices = 31 \<and> distinct chainDevices \<and>
   \<not> success (executeTraceroute ''R1'' ''10.0.1.7'' ''192.168.100.7'' chainTable) \<and>
   error (executeTraceroute ''R1'' ''10.0.1.7'' ''192.168.100.7'' chainTable) =
     Some (HopLimitExceeded 30) \<and>
   length (hops (executeTraceroute ''R1'' ''10.0.1.7'' ''192.168.100.7'' chainTable)) = 30"
proof -
  have c: "forwardChain chainTable ''192.168.100.7'' chainDevices"
    by (simp add: chainDevices_def chain_forwards)
  have d: "length chainDevices = 31" "distinct chainDevices"
    by (simp_all add: chainDevices_def)
  from hop_limit [of "''R1''" "''10.0.1.7''" "''192.168.100.7''" chainTable "''R1''" "tl chainDevices"]
    c d show ?thesis
    by (simp add: chainDevices_def)
qed

text \<open>
  Claim C4. When device \<open>A\<close> forwards the destination to device \<open>B\<close> and \<open>B\<close> forwards
  it back to \<open>A\<close>, the trace from \<open>A\<close> fails with a routing loop at \<open>A\<close> after the two
  hops \<open>A\<close>, \<open>B\<close>, and not with the hop limit. Device names and the source address are
  not empty, as the checks before the loop require.
\<close>

theorem two_device_loop:
  assumes "A \<noteq> []" and "sip \<noteq> []"
    and "nextDevice t dst A = Some B" and "nextDevice t dst B = Some A"
  shows "\<not> success (executeTraceroute A sip dst t) \<and>
         error (executeTraceroute A sip dst t) = Some (RoutingLoop A) \<and>
         error (executeTraceroute A sip dst t) \<noteq> Some (HopLimitExceeded MAX_HOPS) \<and>
         length (hops (executeTraceroute A sip dst t)) \<le> 2 \<and>
         map currentEquipment (hops (executeTraceroute A sip dst t)) = [A, B]"
proof -
  from nextDevice_facts(6) [OF assms(3)] obtain hA where hA: "forwardHop t dst A = Some hA"
    "nextEquipment hA = Some B" by blast
  from nextDevice_facts(6) [OF assms(4)] obtain hB where hB: "forwardHop t dst B = Some hB"
    "nextEquipment hB = Some A" by blast
  have ne: "B \<noteq> A" using assms(3) by (rule nextDevice_facts(1))
  have cA: "currentEquipment hA = A" using hA(1) by (auto dest!: forwardHop_Some)
  have cB: "currentEquipment hB = B" using hB(1) by (auto dest!: forwardHop_Some)
  have "executeTraceroute A sip dst t = traceLoop A sip dst t 0 [] {} A"
    using assms(1,2,3) by (rule executeTraceroute_enters_loop)
  also have "\<dots> = traceLoop A sip dst t (0 + 1) ([] @ [hA]) (insert A {}) B"
    using hA by (intro traceLoop_forward) (simp_all add: MAX_HOPS_def)
  also have "\<dots> = traceLoop A sip dst t (0 + 1 + 1) (([] @ [hA]) @ [hB]) (insert B (insert A {})) A"
    using hB ne by (intro traceLoop_forward) (simp_all add: MAX_HOPS_def)
  also have "\<dots> = failure (RoutingLoop A) (([] @ [hA]) @ [hB]) A sip dst"
    by (intro traceLoop_revisit) (simp_all add: MAX_HOPS_def)
  finally show ?thesis by (simp add: cA cB)
qed

theorem two_device_loop_witness:
  "nextDevice loopTable ''192.168.1.50'' ''RouterA'' = Some ''RouterB'' \<and>
   nextDevice loopTable ''192.168.1.50'' ''RouterB'' = Some ''RouterA'' \<and>
   \<not> success (executeTraceroute ''RouterA'' ''10.0.1.7'' ''192.168.1.50'' loopTable) \<and>
   error (executeTraceroute ''RouterA'' ''10.0.1.7'' ''192.168.1.50'' loopTable) =
     Some (RoutingLoop ''RouterA'') \<and>
   length (hops (executeTraceroute ''RouterA'' ''10.0.1.7'' ''192.168.1.50'' loopTable)) \<le> 2 \<and>
   map currentEquipment (hops (executeTraceroute ''RouterA'' ''10.0.1.7'' ''192.168.1.50'' loopTable)) =
     [''RouterA'', ''RouterB'']"
proof -
  have a: "nextDevice loopTable ''192.168.1.50'' ''RouterA'' = Some ''RouterB''"
    by (simp add: loopTable_def route_eval)
  have b: "nextDevice loopTable ''192.168.1.50'' ''RouterB'' = Some ''RouterA''"
    by (simp add: loopTable_def route_eval)
  have c: "''RouterA'' \<noteq> []" "''10.0.1.7'' \<noteq> []" by simp_all
  from two_device_loop [OF c a b] a b show ?thesis by blast
qed

text \<open>
  Claim C5. Every failure carries exactly the hops accumulated up to the failure
  point: the hops of a failed trace are the forwarding hops that lead from the source
  device to the device at which the failure is detected, none dropped. In particular,
  when the route selected at the first device has a gateway that no other device
  reaches through a directly connected record, the trace fails with an unresolved
  gateway and no hop.
\<close>

theorem failure_keeps_hops:
  "(\<not> success (executeTraceroute src sip dst t) \<longrightarrow>
      (\<exists>c. follows t dst src (hops (executeTraceroute src sip dst t)) = Some c \<and>
           failurePoint t dst (executeTraceroute src sip dst t) c)) \<and>
   (src \<noteq> [] \<and> sip \<noteq> [] \<and> findRouteEntry src dst t = Some e \<and>
    toLowerCase (Gateway e) \<noteq> ''directo'' \<and>
    findEquipmentByGateway (Gateway e) t src = None \<longrightarrow>
      executeTraceroute src sip dst t =
        \<lparr>success = False, error = Some (UnresolvedGateway (Gateway e) src), hops = [],
         sourceEquipment = src, sourceIP = sip, destIP = dst\<rparr>)"
proof (intro conjI impI)
  assume f: "\<not> success (executeTraceroute src sip dst t)"
  show "\<exists>c. follows t dst src (hops (executeTraceroute src sip dst t)) = Some c \<and>
           failurePoint t dst (executeTraceroute src sip dst t) c"
  proof (cases "executeTraceroute src sip dst t = traceLoop src sip dst t 0 [] {} src")
    case True
    have "let r = traceLoop src sip dst t 0 [] {} src
          in \<not> success r \<longrightarrow> (\<exists>c. follows t dst src (hops r) = Some c \<and> failurePoint t dst r c)"
      by (rule traceLoop_failure_path) simp_all
    then show ?thesis using f True by (simp add: Let_def)
  next
    case False
    then have "executeTraceroute src sip dst t = failure InvalidInput [] src sip dst \<or>
               executeTraceroute src sip dst t = failure (UnknownDevice src) [] src sip dst"
      by (auto simp: executeTraceroute_def split: if_splits)
    then show ?thesis by (auto simp: failurePoint_def)
  qed
next
  assume a: "src \<noteq> [] \<and> sip \<noteq> [] \<and> findRouteEntry src dst t = Some e \<and>
    toLowerCase (Gateway e) \<noteq> ''directo'' \<and> findEquipmentByGateway (Gateway e) t src = None"
  from a findRouteEntry_Some [of src dst t e]
  have m: "e \<in> set t" "Equipo e = src" "isIPInNetwork dst (IP_Destino e) (Mascara e)" by auto
  have pre: "dst \<noteq> []" "t \<noteq> []" "list_ex (\<lambda>r. Equipo r = src) t"
    using m by (auto simp: list_ex_iff dest: isIPInNetwork_nonempty)
  have "executeTraceroute src sip dst t = traceLoop src sip dst t 0 [] {} src"
    using a pre by (simp add: executeTraceroute_def)
  also have "\<dots> = failure (UnresolvedGateway (Gateway e) src) [] src sip dst"
    using a by (subst traceLoop.simps) (simp add: MAX_HOPS_def)
  finally show "executeTraceroute src sip dst t =
        \<lparr>success = False, error = Some (UnresolvedGateway (Gateway e) src), hops = [],
         sourceEquipment = src, sourceIP = sip, destIP = dst\<rparr>"
    by (simp add: failure_def)
qed

theorem failure_keeps_hops_witness:
  "findRouteEntry ''RouterA'' ''192.168.1.50'' unresolvedTable =
     Some \<lparr>Equipo = ''RouterA'', IP_Destino = ''192.168.1.0'', Mascara = ''/24'', Gateway = ''10.0.2.2''\<rparr> \<and>
   findEquipmentByGateway ''10.0.2.2'' unresolvedTable ''RouterA'' = None \<and>
   executeTraceroute ''RouterA'' ''192.168.1.1'' ''192.168.1.50'' unresolvedTable =
     \<lparr>success = False, error = Some (UnresolvedGateway ''10.0.2.2'' ''RouterA''), hops = [],
      sourceEquipment = ''RouterA'', sourceIP = ''192.168.1.1'', destIP = ''192.168.1.50''\<rparr> \<and>
   (\<exists>c. follows unresolvedTable ''192.168.1.50'' ''RouterA''
          (hops (executeTraceroute ''RouterA'' ''192.168.1.1'' ''192.168.1.50'' unresolvedTable)) = Some c \<and>
        failurePoint unresolvedTable ''192.168.1.50''
          (executeTraceroute ''RouterA'' ''192.168.1.1'' ''192.168.1.50'' unresolvedTable) c)"
proof -
  let ?e = "\<lparr>Equipo = ''RouterA'', IP_Destino = ''192.168.1.0'', Mascara = ''/24'', Gateway = ''10.0.2.2''\<rparr>"
  have r: "findRouteEntry ''RouterA'' ''192.168.1.50'' unresolvedTable = Some ?e"
    by (simp add: unresolvedTable_def route_eval)
  have g: "findEquipmentByGateway ''10.0.2.2'' unresolvedTable ''RouterA'' = None"
    by (simp add: unresolvedTable_def route_eval)
  have l: "toLowerCase (Gateway ?e) \<noteq> ''directo''" by (simp add: route_eval)
  have n: "''RouterA'' \<noteq> []" "''192.168.1.1'' \<noteq> []" by simp_all
  note T = failure_keeps_hops [of "''RouterA''" "''192.168.1.1''" "''192.168.1.50''" unresolvedTable ?e]
  from T r g l n
  have run: "executeTraceroute ''RouterA'' ''192.168.1.1'' ''192.168.1.50'' unresolvedTable =
     \<lparr>success = False, error = Some (UnresolvedGateway ''10.0.2.2'' ''RouterA''), hops = [],
      sourceEquipment = ''RouterA'', sourceIP = ''192.168.1.1'', destIP = ''192.168.1.50''\<rparr>"
    by simp
  then have "\<not> success (executeTraceroute ''RouterA'' ''192.168.1.1'' ''192.168.1.50'' unresolvedTable)"
    by simp
  with T have "\<exists>c. follows unresolvedTable ''192.168.1.50'' ''RouterA''
          (hops (executeTraceroute ''RouterA'' ''192.168.1.1'' ''192.168.1.50'' unresolvedTable)) = Some c \<and>
        failurePoint unresolvedTable ''192.168.1.50''
          (executeTraceroute ''RouterA'' ''192.168.1.1'' ''192.168.1.50'' unresolvedTable) c"
    by blast
  with r g run show ?thesis by blast
qed

text \<open>
  Claim C6. For every malformed address or network argument, \<open>isIPInNetwork\<close> returns
  false and does not raise.

  The code does not return false: the \<open>catch\<close> that returns false is never reached,
  because \<open>Number\<close> gives \<open>NaN\<close> on a piece that is not numeric and a missing piece is
  \<open>undefined\<close>, and \<open><<\<close> reads both as 0 without throwing. So \<open>abc\<close> reads as
  \<open>0.0.0.0\<close> and matches the network \<open>0.0.0.0/24\<close>, and the network \<open>10.0.0\<close> reads as
  \<open>10.0.0.0\<close> and matches \<open>10.0.0.5\<close>.
\<close>

theorem malformed_address_can_match:
  "isIPInNetwork ''abc'' ''0.0.0.0'' ''/24'' \<and> isIPInNetwork ''10.0.0.5'' ''10.0.0'' ''/24''"
  by (simp add: matcher_unfold)

text \<open>
  Claim C7, as amended. A prefix length \<open>p\<close> outside 0-32 is not rejected. When \<open>p\<close> is
  below \<open>2 ^ 52\<close> in absolute value and not a multiple of 32, the shift count \<open>32 - p\<close>
  is taken modulo 32 and the test compares the two addresses under the mask of the
  top \<open>p mod 32\<close> bits: it is a non-match exactly when they differ there. The function
  is total on strings: it never raises.
\<close>

theorem prefix_out_of_range_compares_wrapped_bits:
  assumes "parseInt (remove1 CHR ''/'' m) = Fin p" and "p < 0 \<or> 32 < p"
    and "\<bar>p\<bar> < 2 ^ 52" and "p mod 32 \<noteq> 0"
  shows "isIPInNetwork ip net m =
           (ip \<noteq> [] \<and> net \<noteq> [] \<and>
            (ipToNumber ip AND prefixMask (nat (p mod 32))) =
            (ipToNumber net AND prefixMask (nat (p mod 32))))"
proof -
  have ne: "m \<noteq> []" using assms(1) by (auto simp: parseInt_def)
  have "0 \<le> p mod 32" and r2: "p mod 32 < 32" by simp_all
  with assms(4) have r: "0 < p mod 32" "p mod 32 < 32" by linarith+
  have "(32 - p) mod 32 = (32 - p mod 32) mod 32" by (rule mod_diff_right_eq [symmetric])
  also have "\<dots> = 32 - p mod 32" using r by (intro mod_pos_pos_trivial) simp_all
  finally have k: "nat ((32 - p) mod 32) = 32 - nat (p mod 32)"
    using r by (simp only:)
  show ?thesis
    unfolding isIPInNetwork_prefix [OF assms(1,3)] k prefixMask_eq_iff
    using ne r by (simp add: nat_less_iff)
qed

theorem prefix_out_of_range_compares_wrapped_bits_witness:
  "parseInt (remove1 CHR ''/'' ''/33'') = Fin 33 \<and> ((33 :: int) < 0 \<or> (32 :: int) < 33) \<and>
   \<bar>33 :: int\<bar> < 2 ^ 52 \<and> (33 :: int) mod 32 \<noteq> 0 \<and>
   isIPInNetwork ''10.0.0.1'' ''10.9.9.9'' ''/33'' =
     (''10.0.0.1'' \<noteq> [] \<and> ''10.9.9.9'' \<noteq> [] \<and>
      (ipToNumber ''10.0.0.1'' AND prefixMask (nat (33 mod 32))) =
      (ipToNumber ''10.9.9.9'' AND prefixMask (nat (33 mod 32)))) \<and>
   \<not> isIPInNetwork ''200.0.0.1'' ''10.9.9.9'' ''/33''"
proof -
  have 1: "parseInt (remove1 CHR ''/'' ''/33'') = Fin 33" by (simp add: route_eval)
  have 2: "(33 :: int) < 0 \<or> (32 :: int) < 33" "\<bar>33 :: int\<bar> < 2 ^ 52" "(33 :: int) mod 32 \<noteq> 0"
    by simp_all
  note T = prefix_out_of_range_compares_wrapped_bits [OF 1 2]
  have 3: "\<not> isIPInNetwork ''200.0.0.1'' ''10.9.9.9'' ''/33''"
    unfolding T [of "''200.0.0.1''" "''10.9.9.9''"]
    by (simp add: prefixMask_eq_iff matcher_eval)
  from 1 2 T [of "''10.0.0.1''" "''10.9.9.9''"] 3 show ?thesis by blast
qed

text \<open>
  Claim C7 as stated (a prefix length outside 0-32 never matches) fails: with \<open>/33\<close>
  only the top bit is compared.
\<close>

theorem prefix_33_matches:
  "parseInt (remove1 CHR ''/'' ''/33'') = Fin 33 \<and> isIPInNetwork ''10.0.0.1'' ''10.9.9.9'' ''/33''"
  by (simp add: route_eval)

text \<open>
  Claim C8. The checks before the loop fail fast with no hop: an empty device, source
  address, destination address or table gives the invalid-input failure; otherwise a
  device that owns no record of the table gives the unknown-device failure.
\<close>

theorem preconditions_fail_fast:
  "(src = [] \<or> sip = [] \<or> dst = [] \<or> t = [] \<longrightarrow>
      executeTraceroute src sip dst t =
        \<lparr>success = False, error = Some InvalidInput, hops = [],
         sourceEquipment = src, sourceIP = sip, destIP = dst\<rparr>) \<and>
   (src \<noteq> [] \<and> sip \<noteq> [] \<and> dst \<noteq> [] \<and> t \<noteq> [] \<and> src \<notin> Equipo ` set t \<longrightarrow>
      executeTraceroute src sip dst t =
        \<lparr>success = False, error = Some (UnknownDevice src), hops = [],
         sourceEquipment = src, sourceIP = sip, destIP = dst\<rparr>)"
  by (auto simp: executeTraceroute_def failure_def list_ex_iff)

theorem preconditions_fail_fast_witness:
  "executeTraceroute ''RouterA'' ''192.168.1.1'' ''192.168.1.50'' [] =
     \<lparr>success = False, error = Some InvalidInput, hops = [],
      sourceEquipment = ''RouterA'', sourceIP = ''192.168.1.1'', destIP = ''192.168.1.50''\<rparr> \<and>
   ''RouterZ'' \<notin> Equipo ` set exampleTable \<and>
   executeTraceroute ''RouterZ'' ''192.168.1.1'' ''192.168.1.50'' exampleTable =
     \<lparr>success = False, error = Some (UnknownDevice ''RouterZ''), hops = [],
      sourceEquipment = ''RouterZ'', sourceIP = ''192.168.1.1'', destIP = ''192.168.1.50''\<rparr>"
proof -
  have z: "''RouterZ'' \<notin> Equipo ` set exampleTable" by (simp add: exampleTable_def)
  have e: "exampleTable \<noteq> []" by (simp add: exampleTable_def)
  from preconditions_fail_fast [of "''RouterA''" "''192.168.1.1''" "''192.168.1.50''" "[]"]
    preconditions_fail_fast [of "''RouterZ''" "''192.168.1.1''" "''192.168.1.50''" exampleTable]
    z e show ?thesis by simp
qed

text \<open>
  Claim C9. In every result, a hop has no next device exactly when its gateway is the
  directly-connected word, and such a hop is only the last hop of a successful trace:
  a successful trace ends with one and has no other, a failed trace has none.
\<close>

theorem terminal_hop_shape:
  "list_all (\<lambda>h. (nextEquipment h = None) = (gateway h = ''directo'') \<and>
                 (nextEquipment h = None) = (toLowerCase (gateway h) = ''directo''))
     (hops (executeTraceroute src sip dst t)) \<and>
   (if success (executeTraceroute src sip dst t)
    then hops (executeTraceroute src sip dst t) \<noteq> [] \<and>
         nextEquipment (last (hops (executeTraceroute src sip dst t))) = None \<and>
         list_all (\<lambda>h. nextEquipment h \<noteq> None) (butlast (hops (executeTraceroute src sip dst t)))
    else list_all (\<lambda>h. nextEquipment h \<noteq> None) (hops (executeTraceroute src sip dst t)))"
proof -
  let ?N = "\<lambda>h. nextEquipment h \<noteq> None \<and> toLowerCase (gateway h) \<noteq> ''directo'' \<and> gateway h \<noteq> ''directo''"
  let ?r = "executeTraceroute src sip dst t"
  have shape: "if success ?r
        then \<exists>hs' l. hops ?r = hs' @ [l] \<and> list_all ?N hs' \<and> nextEquipment l = None \<and> gateway l = ''directo''
        else list_all ?N (hops ?r)"
  proof (cases "?r = traceLoop src sip dst t 0 [] {} src")
    case True
    have "let r = traceLoop src sip dst t 0 [] {} src
          in if success r
             then \<exists>hs' l. hops r = hs' @ [l] \<and> list_all ?N hs' \<and> nextEquipment l = None \<and> gateway l = ''directo''
             else list_all ?N (hops r)"
      by (rule traceLoop_hop_shape) simp
    then show ?thesis unfolding True [symmetric] Let_def .
  next
    case False
    then have "?r = failure InvalidInput [] src sip dst \<or> ?r = failure (UnknownDevice src) [] src sip dst"
      by (auto simp: executeTraceroute_def split: if_splits)
    then show ?thesis by auto
  qed
  show ?thesis
  proof (cases "success ?r")
    case True
    with shape obtain hs' l where h: "hops ?r = hs' @ [l]" "list_all ?N hs'"
      "nextEquipment l = None" "gateway l = ''directo''" by auto
    show ?thesis using True h toLowerCase_directo by (auto simp: list_all_iff)
  next
    case False
    with shape have "list_all ?N (hops ?r)" by simp
    then show ?thesis using False by (auto simp: list_all_iff)
  qed
qed

text \<open>The trace of the README: two hops, the second one terminal.\<close>

theorem terminal_hop_shape_witness:
  "executeTraceroute ''RouterA'' ''192.168.1.1'' ''192.168.1.50'' exampleTable =
     \<lparr>success = True, error = None,
      hops = [\<lparr>currentEquipment = ''RouterA'', destNetwork = ''192.168.1.0/24'',
               gateway = ''10.0.1.2'', nextEquipment = Some ''RouterB''\<rparr>,
              \<lparr>currentEquipment = ''RouterB'', destNetwork = ''192.168.1.0/24'',
               gateway = ''directo'', nextEquipment = None\<rparr>],
      sourceEquipment = ''RouterA'', sourceIP = ''192.168.1.1'', destIP = ''192.168.1.50''\<rparr> \<and>
   nextEquipment (last (hops (executeTraceroute ''RouterA'' ''192.168.1.1'' ''192.168.1.50'' exampleTable))) = None \<and>
   list_all (\<lambda>h. nextEquipment h \<noteq> None)
     (butlast (hops (executeTraceroute ''RouterA'' ''192.168.1.1'' ''192.168.1.50'' exampleTable)))"
proof -
  have run: "executeTraceroute ''RouterA'' ''192.168.1.1'' ''192.168.1.50'' exampleTable =
     \<lparr>success = True, error = None,
      hops = [\<lparr>currentEquipment = ''RouterA'', destNetwork = ''192.168.1.0/24'',
               gateway = ''10.0.1.2'', nextEquipment = Some ''RouterB''\<rparr>,
              \<lparr>currentEquipment = ''RouterB'', destNetwork = ''192.168.1.0/24'',
               gateway = ''directo'', nextEquipment = None\<rparr>],
      sourceEquipment = ''RouterA'', sourceIP = ''192.168.1.1'', destIP = ''192.168.1.50''\<rparr>"
    by (simp add: exampleTable_def run_eval)
  then have s: "success (executeTraceroute ''RouterA'' ''192.168.1.1'' ''192.168.1.50'' exampleTable)"
    by simp
  note T = terminal_hop_shape [of "''RouterA''" "''192.168.1.1''" "''192.168.1.50''" exampleTable]
  from T [THEN conjunct2] s
  have "nextEquipment (last (hops (executeTraceroute ''RouterA'' ''192.168.1.1'' ''192.168.1.50'' exampleTable))) = None \<and>
   list_all (\<lambda>h. nextEquipment h \<noteq> None)
     (butlast (hops (executeTraceroute ''RouterA'' ''192.168.1.1'' ''192.168.1.50'' exampleTable)))"
    by (simp only: if_True)
  with run show ?thesis by blast
qed

text \<open>
  Claim C10. For two non-empty source addresses the results are the same but for the
  reported \<open>sourceIP\<close>: the source address takes no part in the resolution.
\<close>

theorem sourceIP_only_reported:
  assumes "s1 \<noteq> []" and "s2 \<noteq> []"
  shows "executeTraceroute src s2 dst t = (executeTraceroute src s1 dst t)\<lparr>sourceIP := s2\<rparr>"
  using assms traceLoop_sourceIP [of src s2 dst t 0 "[]" "{}" src s1]
  by (simp add: executeTraceroute_def failure_def)

theorem sourceIP_only_reported_witness:
  "executeTraceroute ''RouterA'' ''172.16.0.9'' ''192.168.1.50'' exampleTable =
     (executeTraceroute ''RouterA'' ''192.168.1.1'' ''192.168.1.50'' exampleTable)
       \<lparr>sourceIP := ''172.16.0.9''\<rparr>"
proof -
  have "''192.168.1.1'' \<noteq> []" "''172.16.0.9'' \<noteq> []" by simp_all
  then show ?thesis by (rule sourceIP_only_reported)
qed

end
